theory Spec2Isabelle
  imports Main
begin

section \<open>The visit counter of kjw-writings\<close>

text \<open>
  Two source files are embedded: the in-memory server (\<open>src/unnamed/part_000\<close>) and the
  server with an optional PostgreSQL store (\<open>src/server/index.js\<close>).

  Conventions of the embedding.
  \<^item> The two counters are JavaScript numbers that only ever hold natural numbers; they are
    modelled as \<open>nat\<close>. JavaScript's \<open>+= 1\<close>, \<open>Number(text)\<close> and PostgreSQL's
    \<open>bigint\<close> addition all agree with \<open>nat\<close> arithmetic below \<open>2^53\<close>, which is the range
    this development is about; rounding of doubles beyond it is not modelled.
  \<^item> A JavaScript string is a \<open>string\<close>; the value \<open>undefined\<close> of a missing cookie,
    header or environment variable is \<open>None\<close>.
  \<^item> \<open>req.cookies.vid\<close> is what \<open>cookieParser()\<close> leaves there: the text of the cookie, or
    the value it parses from a cookie that starts with \<open>j:\<close>. A parsed object is a new
    object on every request, and \<open>Set\<close> compares objects by identity; the model names an
    object in the set by the number of objects added before it.
  \<^item> A handler takes the state of the process and returns the response together with the
    new state. A handler of \<open>part_000\<close> has no \<open>await\<close>, and neither has the branch of
    \<open>index.js\<close> without a pool, so Node runs each of them to completion before the next
    request: every concurrent execution of them is a sequence of calls. With a pool a
    handler stops at \<open>await pool.query\<close>; it is modelled both as one step, for requests
    handled one after the other, and as two steps between which other requests run.
  \<^item> What the environment decides during a request is an input of the handler: the value
    that \<open>crypto.randomUUID()\<close> returns when it is called, and whether \<open>pool.query\<close>
    rejects.
\<close>

subsection \<open>JavaScript values\<close>

datatype jsval = JNumber nat | JString string

datatype cookie_value = Text string | Primitive string | Object string

text \<open>The values of \<open>req.cookies.vid\<close>. \<open>Text t\<close> is a string: the text of the cookie, or
  the string that a \<open>j:\<close> cookie holds. \<open>cookieParser()\<close> replaces a \<open>j:\<close> cookie by the value
  \<open>JSON.parse\<close> makes of it when that value is truthy: \<open>Primitive p\<close> is a number other than
  0, or \<open>true\<close>, written \<open>p = String(value)\<close>, which tells such values apart;
  \<open>Object j\<close> is an object or an array, where \<open>j\<close> is the text that node-postgres sends
  for it as a query parameter. The same cookie gives the same \<open>j\<close> on every request, and
  a new object.\<close>

text \<open>\<open>!value\<close> is false of every value but \<open>undefined\<close> and the empty string, among
  those a cookie can have.\<close>

fun truthy :: "cookie_value option \<Rightarrow> bool" where
  "truthy None = False"
| "truthy (Some v) = (v \<noteq> Text [])"

text \<open>The elements of a \<open>Set\<close>: strings and other primitives by value, objects by
  identity.\<close>

datatype visitor_key = KText string | KPrimitive string | KObject nat

definition digit_char :: "nat \<Rightarrow> char" where
  "digit_char d = char_of (48 + d)"

text \<open>The decimal text of a natural number, as PostgreSQL prints a non-negative
  \<open>bigint\<close>.\<close>

fun decimal :: "nat \<Rightarrow> string" where
  "decimal n = (if n < 10 then [digit_char n] else decimal (n div 10) @ [digit_char (n mod 10)])"

declare decimal.simps [simp del]

text \<open>\<open>Number(v)\<close>. A number is returned as it is; a string of decimal digits is read as
  the number it denotes. The source applies \<open>Number\<close> only to \<open>bigint\<close> columns of a query
  result and to the literal \<open>0\<close>, so no other string reaches it.\<close>

fun Number :: "jsval \<Rightarrow> nat" where
  "Number (JNumber n) = n"
| "Number (JString s) = foldl (\<lambda>a c. 10 * a + (of_char c - 48)) 0 s"

subsection \<open>Requests and responses\<close>

record request =
  req_method :: string
  origin :: "string option"
  vid :: "cookie_value option"

text \<open>\<open>req_method\<close> is \<open>req.method\<close>, \<open>origin\<close> is \<open>req.headers.origin\<close> and \<open>vid\<close> is
  \<open>req.cookies.vid\<close>.\<close>

record environment =
  randomUUID :: string
  query_rejects :: bool

record cookie_options =
  httpOnly :: bool
  sameSite :: string
  maxAge :: nat

datatype json =
    VisitBody bool nat nat bool
  | StatsBody nat nat
  | ErrorBody bool string

text \<open>\<open>VisitBody ok totalVisits uniqueVisitors newVisitor\<close>, \<open>StatsBody totalVisits
  uniqueVisitors\<close> and \<open>ErrorBody ok error\<close> are the three objects the handlers pass to
  \<open>res.json\<close>.\<close>

record response =
  status :: nat
  cookie :: "(string \<times> cookie_value \<times> cookie_options) option"
  body :: json

definition one_year_cookie :: cookie_options where
  "one_year_cookie = \<lparr>httpOnly = False, sameSite = ''Lax'', maxAge = 1000 * 60 * 60 * 24 * 365\<rparr>"

subsection \<open>The in-memory server (part_000)\<close>

record stats_mem =
  totalVisits :: nat
  uniqueVisitors :: nat
  seenVisitorIds :: "visitor_key set"
  objects :: nat

text \<open>\<open>objects\<close> is the number of objects that \<open>seenVisitorIds\<close> has been given; it names
  the next one.\<close>

definition initial_mem :: stats_mem where
  "initial_mem = \<lparr>totalVisits = 0, uniqueVisitors = 0, seenVisitorIds = {}, objects = 0\<rparr>"

text \<open>\<open>seenVisitorIds.has(v)\<close>: a string or another primitive is found by its value; an
  object just parsed from a cookie is in no set.\<close>

definition seen_has :: "visitor_key set \<Rightarrow> cookie_value \<Rightarrow> bool" where
  "seen_has seen v =
     (case v of
        Text t \<Rightarrow> KText t \<in> seen
      | Primitive p \<Rightarrow> KPrimitive p \<in> seen
      | Object j \<Rightarrow> False)"

text \<open>\<open>seenVisitorIds.add(v)\<close>: an object becomes an element of its own.\<close>

definition seen_add :: "cookie_value \<Rightarrow> 'a stats_mem_scheme \<Rightarrow> 'a stats_mem_scheme" where
  "seen_add v s =
     (case v of
        Text t \<Rightarrow> s\<lparr>seenVisitorIds := insert (KText t) (seenVisitorIds s)\<rparr>
      | Primitive p \<Rightarrow> s\<lparr>seenVisitorIds := insert (KPrimitive p) (seenVisitorIds s)\<rparr>
      | Object j \<Rightarrow>
          s\<lparr>seenVisitorIds := insert (KObject (objects s)) (seenVisitorIds s),
            objects := Suc (objects s)\<rparr>)"

text \<open>Lines 45 to 53 of \<open>part_000\<close> (81 to 89 of \<open>index.js\<close>): the visitor id of the request
  and whether it counts as new. \<open>!visitorId\<close> holds for a missing cookie and for an empty
  one.\<close>

definition resolve_visitor ::
  "visitor_key set \<Rightarrow> cookie_value option \<Rightarrow> string \<Rightarrow> cookie_value \<times> bool" where
  "resolve_visitor seen c uuid =
     (case c of
        None \<Rightarrow> (Text uuid, True)
      | Some v \<Rightarrow>
          if v = Text [] then (Text uuid, True)
          else if \<not> seen_has seen v then (v, True)
          else (v, False))"

text \<open>Lines 134 to 146 of \<open>index.js\<close> (61 to 73 of \<open>part_000\<close>): the cookie and the body
  of a successful visit.\<close>

definition visit_response :: "cookie_value \<Rightarrow> bool \<Rightarrow> 'a stats_mem_scheme \<Rightarrow> response" where
  "visit_response visitorId isNew s =
     \<lparr>status = 200,
      cookie = Some (''vid'', visitorId, one_year_cookie),
      body = VisitBody True (totalVisits s) (uniqueVisitors s) isNew\<rparr>"

text \<open>\<open>app.post('/api/visit', ...)\<close> of \<open>part_000\<close>.\<close>

definition post_visit_mem ::
  "environment \<Rightarrow> request \<Rightarrow> 'a stats_mem_scheme \<Rightarrow> response \<times> 'a stats_mem_scheme" where
  "post_visit_mem e req s =
     (let (visitorId, isNew) = resolve_visitor (seenVisitorIds s) (vid req) (randomUUID e);
          s1 = s\<lparr>totalVisits := totalVisits s + 1\<rparr>;
          s2 = (if isNew
                then seen_add visitorId (s1\<lparr>uniqueVisitors := uniqueVisitors s1 + 1\<rparr>)
                else s1)
      in (visit_response visitorId isNew s2, s2))"

text \<open>\<open>app.get('/api/stats', ...)\<close> of \<open>part_000\<close>.\<close>

definition get_stats_mem :: "'a stats_mem_scheme \<Rightarrow> response \<times> 'a stats_mem_scheme" where
  "get_stats_mem s =
     (\<lparr>status = 200, cookie = None,
       body = StatsBody (totalVisits s) (uniqueVisitors s)\<rparr>, s)"

subsection \<open>The server with an optional store (index.js)\<close>

text \<open>The store holds the table \<open>visitors\<close> (its primary keys) and the row of \<open>visit_stats\<close>
  with \<open>id = 1\<close>, as \<open>(total_visits, unique_visitors)\<close>, when that row exists.\<close>

record database =
  visitors :: "string set"
  visit_stats :: "(nat \<times> nat) option"

record server = stats_mem +
  pool :: "database option"

text \<open>\<open>pool\<close> is \<open>None\<close> when \<open>DATABASE_URL\<close> is missing, and otherwise the store that the
  pool is connected to.\<close>

definition empty_database :: database where
  "empty_database = \<lparr>visitors = {}, visit_stats = None\<rparr>"

text \<open>\<open>ensureTables\<close> on a store: the tables are created if missing and the row
  \<open>(1, 0, 0)\<close> is inserted unless a row with \<open>id = 1\<close> exists.\<close>

definition ensureTables :: "database \<Rightarrow> database" where
  "ensureTables db =
     (case visit_stats db of
        None \<Rightarrow> db\<lparr>visit_stats := Some (0, 0)\<rparr>
      | Some r \<Rightarrow> db)"

text \<open>The state of the process when it starts to listen, given the store behind its
  pool.\<close>

definition boot :: "database option \<Rightarrow> server" where
  "boot p =
     \<lparr>totalVisits = 0, uniqueVisitors = 0, seenVisitorIds = {}, objects = 0, pool = p\<rparr>"

record stats_row =
  total_visits :: jsval
  unique_visitors :: jsval

record visit_row = stats_row +
  new_visitor :: jsval

datatype pg_error = QueryRejected

text \<open>node-postgres hands a \<open>bigint\<close> column (type \<open>int8\<close>) to JavaScript as the string of
  its decimal text; \<open>index.js\<close> installs no other type parser. \<open>COUNT(*)\<close> and the two
  columns of \<open>visit_stats\<close> are \<open>bigint\<close>.\<close>

definition pg_int8 :: "nat \<Rightarrow> jsval" where
  "pg_int8 n = JString (decimal n)"

text \<open>The text that node-postgres sends for the parameter \<open>visitorId\<close>: a string as it is,
  a number or \<open>true\<close> through \<open>toString()\<close>, an object or array as its text.\<close>

definition pg_param :: "cookie_value \<Rightarrow> string" where
  "pg_param v = (case v of Text t \<Rightarrow> t | Primitive p \<Rightarrow> p | Object j \<Rightarrow> j)"

text \<open>The statement of lines 99 to 121. \<open>ins\<close> inserts the visitor unless it is there and
  returns one row when it did; \<open>upd\<close> adds 1 and the number of rows of \<open>ins\<close> to the row
  with \<open>id = 1\<close> and returns that row when it exists. A rejected query changes nothing.\<close>

definition query_record_visit ::
  "environment \<Rightarrow> string \<Rightarrow> database \<Rightarrow> pg_error + (visit_row list \<times> database)" where
  "query_record_visit e visitorId db =
     (if query_rejects e then Inl QueryRejected
      else
        let ins = (if visitorId \<in> visitors db then 0 else 1);
            db1 = db\<lparr>visitors := insert visitorId (visitors db)\<rparr>
        in case visit_stats db of
             None \<Rightarrow> Inr ([], db1)
           | Some (t, u) \<Rightarrow>
               Inr ([\<lparr>total_visits = pg_int8 (t + 1),
                      unique_visitors = pg_int8 (u + ins),
                      new_visitor = pg_int8 ins\<rparr>],
                    db1\<lparr>visit_stats := Some (t + 1, u + ins)\<rparr>))"

text \<open>The statement of line 158.\<close>

definition query_read_stats ::
  "environment \<Rightarrow> database \<Rightarrow> pg_error + stats_row list" where
  "query_read_stats e db =
     (if query_rejects e then Inl QueryRejected
      else case visit_stats db of
             None \<Rightarrow> Inr []
           | Some (t, u) \<Rightarrow> Inr [\<lparr>total_visits = pg_int8 t, unique_visitors = pg_int8 u\<rparr>])"

text \<open>\<open>app.post('/api/visit', ...)\<close> of \<open>index.js\<close>. \<open>===\<close> is equality of \<open>jsval\<close>: the
  same type and the same value.\<close>

definition post_visit :: "environment \<Rightarrow> request \<Rightarrow> server \<Rightarrow> response \<times> server" where
  "post_visit e req s =
     (let (visitorId, isNew) = resolve_visitor (seenVisitorIds s) (vid req) (randomUUID e)
      in case pool s of
           None \<Rightarrow>
             (let s1 = s\<lparr>totalVisits := totalVisits s + 1\<rparr>;
                  s2 = (if isNew
                        then seen_add visitorId (s1\<lparr>uniqueVisitors := uniqueVisitors s1 + 1\<rparr>)
                        else s1)
              in (visit_response visitorId isNew s2, s2))
         | Some db \<Rightarrow>
             (case query_record_visit e (pg_param visitorId) db of
                Inl err \<Rightarrow>
                  (\<lparr>status = 500, cookie = None,
                    body = ErrorBody False ''stats_update_failed''\<rparr>, s)
              | Inr (rows, db') \<Rightarrow>
                  (let s1 = s\<lparr>pool := Some db'\<rparr>
                   in (case rows of
                         [] \<Rightarrow> (visit_response visitorId isNew s1, s1)
                       | row # _ \<Rightarrow>
                           (let isNew' = (new_visitor row = JNumber 1);
                                s2 = s1\<lparr>totalVisits := Number (total_visits row),
                                        uniqueVisitors := Number (unique_visitors row)\<rparr>
                            in (visit_response visitorId isNew' s2, s2))))))"

text \<open>\<open>app.get('/api/stats', ...)\<close> of \<open>index.js\<close>.\<close>

definition get_stats :: "environment \<Rightarrow> server \<Rightarrow> response \<times> server" where
  "get_stats e s =
     (case pool s of
        None \<Rightarrow>
          (\<lparr>status = 200, cookie = None,
            body = StatsBody (totalVisits s) (uniqueVisitors s)\<rparr>, s)
      | Some db \<Rightarrow>
          (case query_read_stats e db of
             Inl err \<Rightarrow>
               (\<lparr>status = 500, cookie = None,
                 body = ErrorBody False ''stats_read_failed''\<rparr>, s)
           | Inr rows \<Rightarrow>
               let row = (case rows of
                            [] \<Rightarrow> \<lparr>total_visits = JNumber 0, unique_visitors = JNumber 0\<rparr>
                          | r # _ \<Rightarrow> r);
                   s' = s\<lparr>totalVisits := Number (total_visits row),
                          uniqueVisitors := Number (unique_visitors row)\<rparr>
               in (\<lparr>status = 200, cookie = None,
                    body = StatsBody (totalVisits s') (uniqueVisitors s')\<rparr>, s')))"

subsection \<open>Sequences of calls\<close>

datatype call = Visit environment request | ReadStats environment

fun step_mem :: "call \<Rightarrow> 'a stats_mem_scheme \<Rightarrow> response \<times> 'a stats_mem_scheme" where
  "step_mem (Visit e req) s = post_visit_mem e req s"
| "step_mem (ReadStats e) s = get_stats_mem s"

fun step :: "call \<Rightarrow> server \<Rightarrow> response \<times> server" where
  "step (Visit e req) s = post_visit e req s"
| "step (ReadStats e) s = get_stats e s"

text \<open>The state after a sequence of calls.\<close>

fun run_mem :: "call list \<Rightarrow> 'a stats_mem_scheme \<Rightarrow> 'a stats_mem_scheme" where
  "run_mem [] s = s"
| "run_mem (c # cs) s = run_mem cs (snd (step_mem c s))"

fun run :: "call list \<Rightarrow> server \<Rightarrow> server" where
  "run [] s = s"
| "run (c # cs) s = run cs (snd (step c s))"

subsection \<open>Handlers with a pool, cut at the await\<close>

text \<open>What a handler that waits for the store will do with the answer: for a visit, the
  visitor id and \<open>isNew\<close> of lines 81 to 89 and the outcome of the query; for a read, the
  outcome of the query.\<close>

datatype pending =
    VisitQuery cookie_value bool "pg_error + visit_row list"
  | StatsQuery "pg_error + stats_row list"

text \<open>Lines 81 to 121 of \<open>index.js\<close> with a pool, up to the \<open>await\<close>: the store runs the
  statement, and the handler waits for the outcome.\<close>

definition post_visit_await ::
  "environment \<Rightarrow> request \<Rightarrow> server \<Rightarrow> database \<Rightarrow> pending \<times> database" where
  "post_visit_await e req s db =
     (let (visitorId, isNew) = resolve_visitor (seenVisitorIds s) (vid req) (randomUUID e)
      in case query_record_visit e (pg_param visitorId) db of
           Inl err \<Rightarrow> (VisitQuery visitorId isNew (Inl err), db)
         | Inr (rows, db') \<Rightarrow> (VisitQuery visitorId isNew (Inr rows), db'))"

text \<open>Lines 122 to 146, after the \<open>await\<close>.\<close>

definition post_visit_resume ::
  "cookie_value \<Rightarrow> bool \<Rightarrow> pg_error + visit_row list \<Rightarrow> server \<Rightarrow> response \<times> server" where
  "post_visit_resume visitorId isNew answer s =
     (case answer of
        Inl err \<Rightarrow>
          (\<lparr>status = 500, cookie = None,
            body = ErrorBody False ''stats_update_failed''\<rparr>, s)
      | Inr rows \<Rightarrow>
          (case rows of
             [] \<Rightarrow> (visit_response visitorId isNew s, s)
           | row # _ \<Rightarrow>
               (let isNew' = (new_visitor row = JNumber 1);
                    s2 = s\<lparr>totalVisits := Number (total_visits row),
                           uniqueVisitors := Number (unique_visitors row)\<rparr>
                in (visit_response visitorId isNew' s2, s2))))"

text \<open>Lines 156 to 159, up to the \<open>await\<close>, and lines 160 to 171 after it.\<close>

definition get_stats_await :: "environment \<Rightarrow> database \<Rightarrow> pending \<times> database" where
  "get_stats_await e db = (StatsQuery (query_read_stats e db), db)"

definition get_stats_resume :: "pg_error + stats_row list \<Rightarrow> server \<Rightarrow> response \<times> server" where
  "get_stats_resume answer s =
     (case answer of
        Inl err \<Rightarrow>
          (\<lparr>status = 500, cookie = None,
            body = ErrorBody False ''stats_read_failed''\<rparr>, s)
      | Inr rows \<Rightarrow>
          let row = (case rows of
                       [] \<Rightarrow> \<lparr>total_visits = JNumber 0, unique_visitors = JNumber 0\<rparr>
                     | r # _ \<Rightarrow> r);
              s' = s\<lparr>totalVisits := Number (total_visits row),
                     uniqueVisitors := Number (unique_visitors row)\<rparr>
          in (\<lparr>status = 200, cookie = None,
               body = StatsBody (totalVisits s') (uniqueVisitors s')\<rparr>, s'))"

fun await :: "call \<Rightarrow> server \<Rightarrow> database \<Rightarrow> pending \<times> database" where
  "await (Visit e req) s db = post_visit_await e req s db"
| "await (ReadStats e) s db = get_stats_await e db"

fun resume :: "pending \<Rightarrow> server \<Rightarrow> response \<times> server" where
  "resume (VisitQuery visitorId isNew answer) s = post_visit_resume visitorId isNew answer s"
| "resume (StatsQuery answer) s = get_stats_resume answer s"

text \<open>What happens in the process, one thing at a time: a request arrives and its handler
  runs to its end (without a pool) or to its \<open>await\<close> (with a pool, where the store runs
  the query); or the answer to the waiting handler number \<open>k\<close>, counted from the oldest,
  arrives and that handler runs to its end. The state is the process and the handlers that
  wait, oldest first.\<close>

datatype event = Request call | Answer nat

fun event_step :: "event \<Rightarrow> server \<times> pending list \<Rightarrow> server \<times> pending list" where
  "event_step (Request c) (s, waiting) =
     (case pool s of
        None \<Rightarrow> (snd (step c s), waiting)
      | Some db \<Rightarrow>
          (let (p, db') = await c s db
           in (s\<lparr>pool := Some db'\<rparr>, waiting @ [p])))"
| "event_step (Answer k) (s, waiting) =
     (if k < length waiting
      then (snd (resume (waiting ! k) s), take k waiting @ drop (Suc k) waiting)
      else (s, waiting))"

fun events :: "event list \<Rightarrow> server \<times> pending list \<Rightarrow> server \<times> pending list" where
  "events [] sw = sw"
| "events (ev # evs) sw = events evs (event_step ev sw)"

text \<open>Every request is answered before the next one arrives.\<close>

fun in_turn :: "call list \<Rightarrow> event list" where
  "in_turn [] = []"
| "in_turn (c # cs) = Request c # Answer 0 # in_turn cs"

text \<open>Answers arrive in the order in which the store ran the queries.\<close>

fun in_order :: "event list \<Rightarrow> bool" where
  "in_order [] = True"
| "in_order (Request c # evs) = in_order evs"
| "in_order (Answer k # evs) = (k = 0 \<and> in_order evs)"

subsection \<open>The CORS middleware\<close>

text \<open>The characters below 256 that \<open>String.prototype.trim\<close> removes: tab, line feed,
  vertical tab, form feed, carriage return, space and no-break space.\<close>

definition js_whitespace :: "char \<Rightarrow> bool" where
  "js_whitespace c = (of_char c \<in> {9, 10, 11, 12, 13, 32, 160 :: nat})"

definition trim :: "string \<Rightarrow> string" where
  "trim v = rev (dropWhile js_whitespace (rev (dropWhile js_whitespace v)))"

text \<open>\<open>text.split(',')\<close>: the pieces between the commas, empty pieces included.\<close>

fun split_comma :: "string \<Rightarrow> string list" where
  "split_comma [] = [[]]"
| "split_comma (c # cs) =
     (if c = CHR '','' then [] # split_comma cs
      else (case split_comma cs of
              [] \<Rightarrow> [[c]]
            | w # ws \<Rightarrow> (c # w) # ws))"

text \<open>Lines 61 to 63 of \<open>index.js\<close>, from the value of \<open>process.env.ALLOWED_ORIGIN\<close>.\<close>

definition allowedOrigins :: "string option \<Rightarrow> string list" where
  "allowedOrigins allowedOrigin =
     (case allowedOrigin of
        None \<Rightarrow> []
      | Some a \<Rightarrow> if a = [] then [] else filter (\<lambda>v. v \<noteq> []) (map trim (split_comma a)))"

datatype outcome = SendStatus nat | Next

text \<open>The middleware of lines 58 to 75 of \<open>index.js\<close> (22 to 39 of \<open>part_000\<close>): the headers
  it sets, and whether it answers the request itself or passes it on.\<close>

definition cors :: "string option \<Rightarrow> request \<Rightarrow> (string \<rightharpoonup> string) \<times> outcome" where
  "cors allowedOrigin req =
     (let h1 = (case origin req of
                  None \<Rightarrow> Map.empty
                | Some v \<Rightarrow>
                    if v \<noteq> [] \<and> v \<in> set (allowedOrigins allowedOrigin)
                    then [''Access-Control-Allow-Origin'' \<mapsto> v,
                          ''Access-Control-Allow-Credentials'' \<mapsto> ''true'',
                          ''Vary'' \<mapsto> ''Origin'']
                    else Map.empty)
      in if req_method req = ''OPTIONS''
         then (h1(''Access-Control-Allow-Methods'' \<mapsto> ''GET,POST,OPTIONS'',
                  ''Access-Control-Allow-Headers'' \<mapsto> ''Content-Type''),
               SendStatus 204)
         else (h1, Next))"

subsection \<open>Notions used by the properties\<close>

text \<open>The visitor id that a visit carries: its cookie, or the generated identifier when
  the cookie is missing or empty.\<close>

definition visitor_id :: "environment \<Rightarrow> request \<Rightarrow> cookie_value" where
  "visitor_id e req =
     (case vid req of
        None \<Rightarrow> Text (randomUUID e)
      | Some v \<Rightarrow> if v = Text [] then Text (randomUUID e) else v)"

fun visits :: "call list \<Rightarrow> nat" where
  "visits [] = 0"
| "visits (Visit e req # cs) = Suc (visits cs)"
| "visits (ReadStats e # cs) = visits cs"

fun visitor_ids :: "call list \<Rightarrow> cookie_value set" where
  "visitor_ids [] = {}"
| "visitor_ids (Visit e req # cs) = insert (visitor_id e req) (visitor_ids cs)"
| "visitor_ids (ReadStats e # cs) = visitor_ids cs"

text \<open>The string that a visitor id is, if it is one.\<close>

fun text_of :: "cookie_value \<Rightarrow> string set" where
  "text_of (Text t) = {t}"
| "text_of (Primitive p) = {}"
| "text_of (Object j) = {}"

text \<open>The contract of \<open>crypto.randomUUID()\<close> along a sequence of calls: an identifier it
  generates is none of the strings in \<open>seen\<close> or carried as visitor id by an earlier call
  of the sequence. Visits that bring their cookie generate nothing.\<close>

fun uuids_fresh :: "string set \<Rightarrow> call list \<Rightarrow> bool" where
  "uuids_fresh seen [] = True"
| "uuids_fresh seen (Visit e req # cs) =
     ((truthy (vid req) \<or> randomUUID e \<notin> seen) \<and>
      uuids_fresh (seen \<union> text_of (visitor_id e req)) cs)"
| "uuids_fresh seen (ReadStats e # cs) = uuids_fresh seen cs"

text \<open>The value of the \<open>vid\<close> cookie that a response sets, if it sets one.\<close>

definition issued_vid :: "response \<Rightarrow> cookie_value option" where
  "issued_vid res = (case cookie res of None \<Rightarrow> None | Some (name, v, opts) \<Rightarrow> Some v)"

text \<open>A non-empty string that does not start with \<open>j:\<close>: sent as a cookie, it comes back
  from \<open>cookieParser()\<close> as it is.\<close>

definition plain_text :: "cookie_value \<Rightarrow> bool" where
  "plain_text v = (case v of Text t \<Rightarrow> t \<noteq> [] \<and> take 2 t \<noteq> ''j:'' | Primitive p \<Rightarrow> False | Object j \<Rightarrow> False)"

text \<open>The request \<open>req\<close> sent with the cookie that the response \<open>res\<close> has set, for a
  cookie that is such a string.\<close>

definition reuse_cookie :: "response \<Rightarrow> request \<Rightarrow> request" where
  "reuse_cookie res req = req\<lparr>vid := issued_vid res\<rparr>"

text \<open>The stored row, when there is one, has no more unique visitors than visits.\<close>

definition stored_ok :: "database option \<Rightarrow> bool" where
  "stored_ok p =
     (case p of
        None \<Rightarrow> True
      | Some db \<Rightarrow> (case visit_stats db of None \<Rightarrow> True | Some (t, u) \<Rightarrow> u \<le> t))"

definition counters_ok :: "server \<Rightarrow> bool" where
  "counters_ok s = (uniqueVisitors s \<le> totalVisits s \<and> stored_ok (pool s))"

text \<open>The stored counters of \<open>p'\<close> are not below those of \<open>p\<close>.\<close>

definition stored_le :: "database option \<Rightarrow> database option \<Rightarrow> bool" where
  "stored_le p p' =
     (case p of
        None \<Rightarrow> True
      | Some db \<Rightarrow>
          (case visit_stats db of
             None \<Rightarrow> True
           | Some (t, u) \<Rightarrow>
               (case p' of
                  None \<Rightarrow> False
                | Some db' \<Rightarrow>
                    (case visit_stats db' of
                       None \<Rightarrow> False
                     | Some (t', u') \<Rightarrow> t \<le> t' \<and> u \<le> u'))))"

text \<open>The counters cached in the process are not above the stored ones, and are zero
  while no row is stored.\<close>

definition cache_le_store :: "server \<Rightarrow> bool" where
  "cache_le_store s =
     (case pool s of
        None \<Rightarrow> True
      | Some db \<Rightarrow>
          (case visit_stats db of
             None \<Rightarrow> totalVisits s = 0 \<and> uniqueVisitors s = 0
           | Some (t, u) \<Rightarrow> totalVisits s \<le> t \<and> uniqueVisitors s \<le> u))"

text \<open>The counters that an answer writes into \<open>stats\<close> when its handler goes on, if it
  writes any.\<close>

fun pending_write :: "pending \<Rightarrow> (nat \<times> nat) option" where
  "pending_write (VisitQuery v n (Inl err)) = None"
| "pending_write (VisitQuery v n (Inr [])) = None"
| "pending_write (VisitQuery v n (Inr (row # rows))) =
     Some (Number (total_visits row), Number (unique_visitors row))"
| "pending_write (StatsQuery (Inl err)) = None"
| "pending_write (StatsQuery (Inr [])) = Some (0, 0)"
| "pending_write (StatsQuery (Inr (row # rows))) =
     Some (Number (total_visits row), Number (unique_visitors row))"

definition le2 :: "nat \<times> nat \<Rightarrow> nat \<times> nat \<Rightarrow> bool" where
  "le2 a b = (fst a \<le> fst b \<and> snd a \<le> snd b)"

definition stored_counters :: "database \<Rightarrow> nat \<times> nat" where
  "stored_counters db = (case visit_stats db of None \<Rightarrow> (0, 0) | Some r \<Rightarrow> r)"

text \<open>Without a pool no handler waits. With a pool the cached counters, the counters of
  the waiting answers from the oldest on, and the stored counters, in this order, do not
  decrease.\<close>

definition in_flight_ok :: "server \<times> pending list \<Rightarrow> bool" where
  "in_flight_ok sw =
     (case pool (fst sw) of
        None \<Rightarrow> snd sw = []
      | Some db \<Rightarrow>
          sorted_wrt le2
            ((totalVisits (fst sw), uniqueVisitors (fst sw)) #
             List.map_filter pending_write (snd sw) @ [stored_counters db]))"

text \<open>A preflight answer: status 204 with the two headers of lines 70 and 71.\<close>

definition preflight_answered :: "(string \<rightharpoonup> string) \<times> outcome \<Rightarrow> bool" where
  "preflight_answered r =
     (snd r = SendStatus 204 \<and>
      fst r ''Access-Control-Allow-Methods'' = Some ''GET,POST,OPTIONS'' \<and>
      fst r ''Access-Control-Allow-Headers'' = Some ''Content-Type'')"

text \<open>The Origin header of the request is present and in the configured list.\<close>

definition origin_allowed :: "string option \<Rightarrow> request \<Rightarrow> bool" where
  "origin_allowed allowedOrigin req =
     (case origin req of
        None \<Rightarrow> False
      | Some v \<Rightarrow> v \<in> set (allowedOrigins allowedOrigin))"

subsection \<open>Sample requests\<close>

definition up :: environment where
  "up = \<lparr>randomUUID = ''1b9d6bcd-bbfd-4b2d-9b5d-ab8dfbbd4bed'', query_rejects = False\<rparr>"

definition down :: environment where
  "down = \<lparr>randomUUID = ''9c5b94b1-35ad-49bb-b118-8e8fc24abf80'', query_rejects = True\<rparr>"

definition no_cookie :: request where
  "no_cookie = \<lparr>req_method = ''POST'', origin = None, vid = None\<rparr>"

definition returning :: request where
  "returning =
     \<lparr>req_method = ''POST'', origin = None, vid = Some (Text ''1b9d6bcd-bbfd-4b2d-9b5d-ab8dfbbd4bed'')\<rparr>"

definition stranger :: request where
  "stranger =
     \<lparr>req_method = ''POST'', origin = None, vid = Some (Text ''6ec0bd7f-11c0-43da-975e-2a8ad9ebae0b'')\<rparr>"

definition json_cookie :: request where
  "json_cookie = \<lparr>req_method = ''POST'', origin = None, vid = Some (Object ''{}'')\<rparr>"

definition preflight :: request where
  "preflight = \<lparr>req_method = ''OPTIONS'', origin = None, vid = None\<rparr>"

definition fresh_store :: "database option" where
  "fresh_store = Some (ensureTables empty_database)"

section \<open>Properties\<close>

subsection \<open>Auxiliary facts\<close>

lemma Number_decimal: "Number (JString (decimal n)) = n"
proof (induction n rule: decimal.induct)
  case (1 n)
  show ?case
  proof (cases "n < 10")
    case True
    then show ?thesis
      by (subst decimal.simps) (simp add: digit_char_def)
  next
    case False
    with 1 have "foldl (\<lambda>a c. 10 * a + (of_char c - 48)) 0 (decimal (n div 10)) = n div 10"
      by simp
    moreover have "of_char (digit_char (n mod 10)) - 48 = n mod 10"
      by (simp add: digit_char_def)
    ultimately show ?thesis
      using False by (subst decimal.simps) simp
  qed
qed

lemma resolve_visitor_id:
  "resolve_visitor seen (vid req) (randomUUID e) =
     (visitor_id e req, \<not> truthy (vid req) \<or> \<not> seen_has seen (visitor_id e req))"
  by (auto simp: resolve_visitor_def visitor_id_def split: option.splits)

lemma post_visit_mem_state:
  "snd (post_visit_mem e req s) =
     (if \<not> truthy (vid req) \<or> \<not> seen_has (seenVisitorIds s) (visitor_id e req)
      then seen_add (visitor_id e req)
             (s\<lparr>totalVisits := totalVisits s + 1, uniqueVisitors := uniqueVisitors s + 1\<rparr>)
      else s\<lparr>totalVisits := totalVisits s + 1\<rparr>)"
  by (simp add: post_visit_mem_def resolve_visitor_id Let_def)

lemma post_visit_mem_response:
  "fst (post_visit_mem e req s) =
     visit_response (visitor_id e req)
       (\<not> truthy (vid req) \<or> \<not> seen_has (seenVisitorIds s) (visitor_id e req))
       (snd (post_visit_mem e req s))"
  by (simp add: post_visit_mem_def resolve_visitor_id Let_def)

lemma seen_add_fields [simp]:
  "totalVisits (seen_add v s) = totalVisits s"
  "uniqueVisitors (seen_add v s) = uniqueVisitors s"
  by (simp_all add: seen_add_def split: cookie_value.splits)

lemma pool_seen_add [simp]: "pool (seen_add v s) = pool s"
  by (simp add: seen_add_def split: cookie_value.splits)

lemma post_visit_no_pool:
  "pool s = None \<Longrightarrow> post_visit e req s = post_visit_mem e req s"
  by (simp add: post_visit_def post_visit_mem_def Let_def split: prod.splits)

lemma get_stats_no_pool:
  "pool s = None \<Longrightarrow> get_stats e s = get_stats_mem s"
  by (simp add: get_stats_def get_stats_mem_def)

lemma step_no_pool: "pool s = None \<Longrightarrow> step c s = step_mem c s"
  by (cases c) (simp_all add: post_visit_no_pool get_stats_no_pool)

lemma pool_step_mem: "pool (snd (step_mem c s)) = pool s"
  by (cases c) (simp_all add: post_visit_mem_state get_stats_mem_def)

lemma run_no_pool: "pool s = None \<Longrightarrow> run cs s = run_mem cs s"
  by (induction cs arbitrary: s) (simp_all add: step_no_pool pool_step_mem)

lemma pool_run_mem: "pool (run_mem cs s) = pool s"
  by (induction cs arbitrary: s) (simp_all add: pool_step_mem)

lemma total_step_mem:
  "totalVisits (snd (step_mem c s)) = totalVisits s + visits [c]"
  by (cases c) (simp_all add: post_visit_mem_state get_stats_mem_def)

lemma visits_Cons: "visits (c # cs) = visits [c] + visits cs"
  by (cases c) simp_all

lemma total_run_mem: "totalVisits (run_mem cs s) = totalVisits s + visits cs"
proof (induction cs arbitrary: s)
  case Nil
  show ?case by simp
next
  case (Cons c cs)
  show ?case
    by (simp add: Cons.IH total_step_mem visits_Cons [of c cs])
qed

lemma visitor_ids_Cons: "visitor_ids (c # cs) = visitor_ids [c] \<union> visitor_ids cs"
  by (cases c) simp_all

lemma uuids_fresh_Cons:
  "uuids_fresh seen (c # cs) \<longleftrightarrow>
     uuids_fresh seen [c] \<and> uuids_fresh (seen \<union> \<Union> (text_of ` visitor_ids [c])) cs"
  by (cases c) simp_all

lemma uuids_fresh_append:
  "uuids_fresh seen (cs @ cs') \<longleftrightarrow>
     uuids_fresh seen cs \<and> uuids_fresh (seen \<union> \<Union> (text_of ` visitor_ids cs)) cs'"
proof (induction cs arbitrary: seen)
  case Nil
  show ?case by simp
next
  case (Cons c cs)
  show ?case
    by (cases c) (simp_all add: Cons.IH Un_assoc)
qed

lemma texts_step_mem:
  "{t. KText t \<in> seenVisitorIds (snd (step_mem c s))} =
     {t. KText t \<in> seenVisitorIds s} \<union> \<Union> (text_of ` visitor_ids [c])"
proof (cases c)
  case (Visit e req)
  show ?thesis
  proof (cases "visitor_id e req")
    case (Text t)
    with Visit show ?thesis
      by (auto simp: post_visit_mem_state seen_add_def seen_has_def)
  next
    case (Primitive p)
    with Visit show ?thesis
      by (auto simp: post_visit_mem_state seen_add_def seen_has_def)
  next
    case (Object j)
    with Visit show ?thesis
      by (auto simp: post_visit_mem_state seen_add_def seen_has_def)
  qed
next
  case (ReadStats e)
  then show ?thesis by (simp add: get_stats_mem_def)
qed

lemma step_mem_card:
  assumes fin: "finite (seenVisitorIds s)"
    and card: "uniqueVisitors s = card (seenVisitorIds s)"
    and objs: "\<forall>n. KObject n \<in> seenVisitorIds s \<longrightarrow> n < objects s"
    and fresh: "uuids_fresh {t. KText t \<in> seenVisitorIds s} [c]"
  shows "finite (seenVisitorIds (snd (step_mem c s)))"
    and "uniqueVisitors (snd (step_mem c s)) = card (seenVisitorIds (snd (step_mem c s)))"
    and "\<forall>n. KObject n \<in> seenVisitorIds (snd (step_mem c s)) \<longrightarrow> n < objects (snd (step_mem c s))"
    and "seenVisitorIds s \<subseteq> seenVisitorIds (snd (step_mem c s))"
    and "(seenVisitorIds (snd (step_mem c s)) \<noteq> seenVisitorIds s) =
         (uniqueVisitors (snd (step_mem c s)) = uniqueVisitors s + 1)"
    and "(seenVisitorIds (snd (step_mem c s)) = seenVisitorIds s) =
         (uniqueVisitors (snd (step_mem c s)) = uniqueVisitors s)"
proof -
  have "finite (seenVisitorIds (snd (step_mem c s))) \<and>
        uniqueVisitors (snd (step_mem c s)) = card (seenVisitorIds (snd (step_mem c s))) \<and>
        (\<forall>n. KObject n \<in> seenVisitorIds (snd (step_mem c s)) \<longrightarrow> n < objects (snd (step_mem c s))) \<and>
        seenVisitorIds s \<subseteq> seenVisitorIds (snd (step_mem c s)) \<and>
        ((seenVisitorIds (snd (step_mem c s)) \<noteq> seenVisitorIds s) =
         (uniqueVisitors (snd (step_mem c s)) = uniqueVisitors s + 1)) \<and>
        ((seenVisitorIds (snd (step_mem c s)) = seenVisitorIds s) =
         (uniqueVisitors (snd (step_mem c s)) = uniqueVisitors s))"
  proof (cases c)
    case (ReadStats e)
    with fin card objs show ?thesis by (simp add: get_stats_mem_def)
  next
    case (Visit e req)
    have new_object: "KObject (objects s) \<notin> seenVisitorIds s"
      using objs by auto
    show ?thesis
    proof (cases "truthy (vid req)")
      case False
      then have v: "visitor_id e req = Text (randomUUID e)"
        by (cases "vid req") (simp_all add: visitor_id_def)
      from fresh Visit False have "KText (randomUUID e) \<notin> seenVisitorIds s"
        by simp
      with Visit False v fin card objs show ?thesis
        by (auto simp: post_visit_mem_state seen_add_def)
    next
      case True
      show ?thesis
      proof (cases "visitor_id e req")
        case (Text t)
        with Visit True fin card objs show ?thesis
          by (auto simp: post_visit_mem_state seen_add_def seen_has_def)
      next
        case (Primitive p)
        with Visit True fin card objs show ?thesis
          by (auto simp: post_visit_mem_state seen_add_def seen_has_def)
      next
        case (Object j)
        with Visit True fin card objs new_object show ?thesis
          by (auto simp: post_visit_mem_state seen_add_def seen_has_def less_Suc_eq)
      qed
    qed
  qed
  then show "finite (seenVisitorIds (snd (step_mem c s)))"
    and "uniqueVisitors (snd (step_mem c s)) = card (seenVisitorIds (snd (step_mem c s)))"
    and "\<forall>n. KObject n \<in> seenVisitorIds (snd (step_mem c s)) \<longrightarrow> n < objects (snd (step_mem c s))"
    and "seenVisitorIds s \<subseteq> seenVisitorIds (snd (step_mem c s))"
    and "(seenVisitorIds (snd (step_mem c s)) \<noteq> seenVisitorIds s) =
         (uniqueVisitors (snd (step_mem c s)) = uniqueVisitors s + 1)"
    and "(seenVisitorIds (snd (step_mem c s)) = seenVisitorIds s) =
         (uniqueVisitors (snd (step_mem c s)) = uniqueVisitors s)"
    by blast+
qed

lemma run_mem_card:
  "finite (seenVisitorIds s) \<Longrightarrow> uniqueVisitors s = card (seenVisitorIds s) \<Longrightarrow>
   \<forall>n. KObject n \<in> seenVisitorIds s \<longrightarrow> n < objects s \<Longrightarrow>
   uuids_fresh {t. KText t \<in> seenVisitorIds s} cs \<Longrightarrow>
   finite (seenVisitorIds (run_mem cs s)) \<and>
   uniqueVisitors (run_mem cs s) = card (seenVisitorIds (run_mem cs s)) \<and>
   (\<forall>n. KObject n \<in> seenVisitorIds (run_mem cs s) \<longrightarrow> n < objects (run_mem cs s)) \<and>
   {t. KText t \<in> seenVisitorIds (run_mem cs s)} =
     {t. KText t \<in> seenVisitorIds s} \<union> \<Union> (text_of ` visitor_ids cs)"
proof (induction cs arbitrary: s)
  case Nil
  then show ?case by simp
next
  case (Cons c cs)
  from Cons.prems(4) have c: "uuids_fresh {t. KText t \<in> seenVisitorIds s} [c]"
    and cs: "uuids_fresh {t. KText t \<in> seenVisitorIds (snd (step_mem c s))} cs"
    by (simp_all add: uuids_fresh_Cons [of _ c cs] texts_step_mem)
  note step = step_mem_card [OF Cons.prems(1,2,3) c]
  from Cons.IH [OF step(1,2,3) cs] show ?case
    by (simp add: texts_step_mem visitor_ids_Cons [of c cs] Un_assoc)
qed

lemma Number_pg_int8: "Number (pg_int8 n) = n"
  by (simp only: pg_int8_def Number_decimal)

lemma pg_int8_not_number: "pg_int8 n \<noteq> JNumber k"
  by (simp add: pg_int8_def)

lemma post_visit_rejected:
  "pool s = Some db \<Longrightarrow> query_rejects e \<Longrightarrow>
   post_visit e req s =
     (\<lparr>status = 500, cookie = None, body = ErrorBody False ''stats_update_failed''\<rparr>, s)"
  by (simp add: post_visit_def query_record_visit_def split: prod.splits)

lemma post_visit_stored:
  assumes "pool s = Some db" and "\<not> query_rejects e" and "visit_stats db = Some (t, u)"
  shows "post_visit e req s =
     (let v = visitor_id e req;
          ins = (if pg_param v \<in> visitors db then 0 else 1);
          s' = s\<lparr>pool := Some (db\<lparr>visitors := insert (pg_param v) (visitors db),
                                  visit_stats := Some (t + 1, u + ins)\<rparr>),
                 totalVisits := t + 1, uniqueVisitors := u + ins\<rparr>
      in (visit_response v False s', s'))"
  using assms
  by (simp add: post_visit_def query_record_visit_def resolve_visitor_id Let_def
      Number_pg_int8 pg_int8_not_number)

lemma post_visit_no_row:
  assumes "pool s = Some db" and "\<not> query_rejects e" and "visit_stats db = None"
  shows "post_visit e req s =
     (let v = visitor_id e req;
          s' = s\<lparr>pool := Some (db\<lparr>visitors := insert (pg_param v) (visitors db)\<rparr>)\<rparr>
      in (visit_response v (\<not> truthy (vid req) \<or> \<not> seen_has (seenVisitorIds s) v) s', s'))"
  using assms
  by (simp add: post_visit_def query_record_visit_def resolve_visitor_id Let_def)

lemma get_stats_rejected:
  "pool s = Some db \<Longrightarrow> query_rejects e \<Longrightarrow>
   get_stats e s =
     (\<lparr>status = 500, cookie = None, body = ErrorBody False ''stats_read_failed''\<rparr>, s)"
  by (simp add: get_stats_def query_read_stats_def)

lemma get_stats_stored:
  assumes "pool s = Some db" and "\<not> query_rejects e" and "visit_stats db = Some (t, u)"
  shows "get_stats e s =
     (\<lparr>status = 200, cookie = None, body = StatsBody t u\<rparr>,
      s\<lparr>totalVisits := t, uniqueVisitors := u\<rparr>)"
  using assms by (simp add: get_stats_def query_read_stats_def Number_pg_int8)

lemma get_stats_no_row:
  assumes "pool s = Some db" and "\<not> query_rejects e" and "visit_stats db = None"
  shows "get_stats e s =
     (\<lparr>status = 200, cookie = None, body = StatsBody 0 0\<rparr>,
      s\<lparr>totalVisits := 0, uniqueVisitors := 0\<rparr>)"
  using assms by (simp add: get_stats_def query_read_stats_def)

lemma step_cases:
  obtains (memory) "pool s = None" "step c s = step_mem c s"
  | (rejected) db where "pool s = Some db" "snd (step c s) = s"
  | (visit_row) db t u e req where "pool s = Some db" "visit_stats db = Some (t, u)"
      "c = Visit e req"
      "snd (step c s) =
         s\<lparr>pool := Some (db\<lparr>visitors := insert (pg_param (visitor_id e req)) (visitors db),
                             visit_stats := Some (t + 1, u + (if pg_param (visitor_id e req) \<in> visitors db then 0 else 1))\<rparr>),
           totalVisits := t + 1,
           uniqueVisitors := u + (if pg_param (visitor_id e req) \<in> visitors db then 0 else 1)\<rparr>"
  | (visit_no_row) db e req where "pool s = Some db" "visit_stats db = None"
      "c = Visit e req"
      "snd (step c s) = s\<lparr>pool := Some (db\<lparr>visitors := insert (pg_param (visitor_id e req)) (visitors db)\<rparr>)\<rparr>"
  | (read_row) db t u where "pool s = Some db" "visit_stats db = Some (t, u)"
      "snd (step c s) = s\<lparr>totalVisits := t, uniqueVisitors := u\<rparr>"
  | (read_no_row) db where "pool s = Some db" "visit_stats db = None"
      "snd (step c s) = s\<lparr>totalVisits := 0, uniqueVisitors := 0\<rparr>"
proof (cases "pool s")
  case None
  then show ?thesis using memory by (simp add: step_no_pool)
next
  case (Some db)
  show ?thesis
  proof (cases c)
    case (Visit e req)
    show ?thesis
    proof (cases "query_rejects e")
      case True
      with Some Visit show ?thesis using rejected by (simp add: post_visit_rejected)
    next
      case False
      show ?thesis
      proof (cases "visit_stats db")
        case None
        with Some Visit False show ?thesis
          using visit_no_row [of db e req] by (simp add: post_visit_no_row Let_def)
      next
        case (Some r)
        obtain t u where "r = (t, u)" by (cases r)
        with Some \<open>pool s = Some db\<close> Visit False show ?thesis
          using visit_row [of db t u e req] by (simp add: post_visit_stored Let_def)
      qed
    qed
  next
    case (ReadStats e)
    show ?thesis
    proof (cases "query_rejects e")
      case True
      with Some ReadStats show ?thesis using rejected by (simp add: get_stats_rejected)
    next
      case False
      show ?thesis
      proof (cases "visit_stats db")
        case None
        with Some ReadStats False show ?thesis
          using read_no_row [of db] by (simp add: get_stats_no_row)
      next
        case (Some r)
        obtain t u where "r = (t, u)" by (cases r)
        with Some \<open>pool s = Some db\<close> ReadStats False show ?thesis
          using read_row [of db t u] by (simp add: get_stats_stored)
      qed
    qed
  qed
qed

lemma unique_le_total_step_mem:
  "uniqueVisitors s \<le> totalVisits s \<Longrightarrow>
   uniqueVisitors (snd (step_mem c s)) \<le> totalVisits (snd (step_mem c s))"
  by (cases c) (simp_all add: post_visit_mem_state get_stats_mem_def)

lemma unique_le_total_run_mem:
  "uniqueVisitors s \<le> totalVisits s \<Longrightarrow>
   uniqueVisitors (run_mem cs s) \<le> totalVisits (run_mem cs s)"
  by (induction cs arbitrary: s) (simp_all add: unique_le_total_step_mem)

lemma counters_ok_step:
  assumes "counters_ok s"
  shows "counters_ok (snd (step c s))"
proof (cases rule: step_cases [of s c])
  case memory
  with assms show ?thesis
    by (simp add: counters_ok_def unique_le_total_step_mem pool_step_mem)
next
  case (rejected db)
  with assms show ?thesis by simp
next
  case (visit_row db t u e req)
  with assms show ?thesis by (simp add: counters_ok_def stored_ok_def)
next
  case (visit_no_row db e req)
  with assms show ?thesis by (simp add: counters_ok_def stored_ok_def)
next
  case (read_row db t u)
  with assms show ?thesis by (simp add: counters_ok_def stored_ok_def)
next
  case (read_no_row db)
  with assms show ?thesis by (simp add: counters_ok_def stored_ok_def)
qed

lemma counters_ok_run: "counters_ok s \<Longrightarrow> counters_ok (run cs s)"
  by (induction cs arbitrary: s) (simp_all add: counters_ok_step)

lemma cache_le_store_step:
  assumes "cache_le_store s"
  shows "cache_le_store (snd (step c s))"
proof (cases rule: step_cases [of s c])
  case memory
  then show ?thesis by (simp add: cache_le_store_def pool_step_mem)
next
  case (rejected db)
  with assms show ?thesis by simp
next
  case (visit_row db t u e req)
  then show ?thesis by (simp add: cache_le_store_def)
next
  case (visit_no_row db e req)
  with assms show ?thesis by (simp add: cache_le_store_def)
next
  case (read_row db t u)
  then show ?thesis by (simp add: cache_le_store_def)
next
  case (read_no_row db)
  then show ?thesis by (simp add: cache_le_store_def)
qed

lemma cache_le_store_run: "cache_le_store s \<Longrightarrow> cache_le_store (run cs s)"
  by (induction cs arbitrary: s) (simp_all add: cache_le_store_step)

lemma monotone_step_mem:
  "totalVisits s \<le> totalVisits (snd (step_mem c s)) \<and>
   uniqueVisitors s \<le> uniqueVisitors (snd (step_mem c s))"
  by (cases c) (simp_all add: post_visit_mem_state get_stats_mem_def)

lemma monotone_step:
  assumes "cache_le_store s"
  shows "totalVisits s \<le> totalVisits (snd (step c s)) \<and>
         uniqueVisitors s \<le> uniqueVisitors (snd (step c s)) \<and>
         stored_le (pool s) (pool (snd (step c s)))"
proof (cases rule: step_cases [of s c])
  case memory
  then show ?thesis by (simp add: monotone_step_mem stored_le_def)
next
  case (rejected db)
  then show ?thesis by (simp add: stored_le_def split: option.splits)
next
  case (visit_row db t u e req)
  with assms show ?thesis by (simp add: cache_le_store_def stored_le_def)
next
  case (visit_no_row db e req)
  with assms show ?thesis by (simp add: cache_le_store_def stored_le_def)
next
  case (read_row db t u)
  with assms show ?thesis by (simp add: cache_le_store_def stored_le_def)
next
  case (read_no_row db)
  with assms show ?thesis by (simp add: cache_le_store_def stored_le_def)
qed

lemma issued_vid_visit_response: "issued_vid (visit_response v isNew s) = Some v"
  by (simp add: issued_vid_def visit_response_def)

lemma body_visit_response:
  "body (visit_response v isNew s) = VisitBody True (totalVisits s) (uniqueVisitors s) isNew"
  by (simp add: visit_response_def)

lemma first_visit_mem:
  assumes "\<not> truthy (vid req)"
  shows "fst (post_visit_mem e req initial_mem) =
           \<lparr>status = 200, cookie = Some (''vid'', Text (randomUUID e), one_year_cookie),
            body = VisitBody True 1 1 True\<rparr>"
    and "fst (post_visit e req (boot None)) =
           \<lparr>status = 200, cookie = Some (''vid'', Text (randomUUID e), one_year_cookie),
            body = VisitBody True 1 1 True\<rparr>"
proof -
  from assms have v: "visitor_id e req = Text (randomUUID e)"
    by (cases "vid req") (simp_all add: visitor_id_def)
  from assms v show "fst (post_visit_mem e req initial_mem) =
           \<lparr>status = 200, cookie = Some (''vid'', Text (randomUUID e), one_year_cookie),
            body = VisitBody True 1 1 True\<rparr>"
    by (simp add: post_visit_mem_response post_visit_mem_state visit_response_def initial_mem_def)
  from assms v show "fst (post_visit e req (boot None)) =
           \<lparr>status = 200, cookie = Some (''vid'', Text (randomUUID e), one_year_cookie),
            body = VisitBody True 1 1 True\<rparr>"
    by (simp add: post_visit_no_pool post_visit_mem_response post_visit_mem_state
        visit_response_def boot_def)
qed

lemma first_visit_stored:
  assumes "\<not> truthy (vid req)" and "\<not> query_rejects e"
  shows "fst (post_visit e req (boot fresh_store)) =
           \<lparr>status = 200, cookie = Some (''vid'', Text (randomUUID e), one_year_cookie),
            body = VisitBody True 1 1 False\<rparr>"
proof -
  from assms have v: "visitor_id e req = Text (randomUUID e)"
    by (cases "vid req") (simp_all add: visitor_id_def)
  have "pool (boot fresh_store) = Some (ensureTables empty_database)"
    and "visit_stats (ensureTables empty_database) = Some (0, 0)"
    by (simp_all add: boot_def fresh_store_def ensureTables_def empty_database_def)
  from post_visit_stored [OF this(1) assms(2) this(2)] v show ?thesis
    by (simp add: Let_def visit_response_def ensureTables_def empty_database_def)
qed

lemma run_mem_reads: "visits cs = 0 \<Longrightarrow> run_mem cs s = s"
  by (induction cs arbitrary: s rule: visits.induct) (simp_all add: get_stats_mem_def)

lemma run_reads_zero:
  assumes "visits cs = 0" and "visit_stats db = None \<or> visit_stats db = Some (0, 0)"
  shows "run cs (boot (Some db)) = boot (Some db)"
  using assms(1)
proof (induction cs rule: visits.induct)
  case 1
  show ?case by simp
next
  case (2 e req cs)
  then show ?case by simp
next
  case (3 e cs)
  have "snd (get_stats e (boot (Some db))) = boot (Some db)"
  proof (cases "query_rejects e")
    case True
    then show ?thesis
      by (simp add: get_stats_rejected [of _ db] boot_def)
  next
    case False
    from assms(2) show ?thesis
    proof
      assume "visit_stats db = None"
      with False show ?thesis
        by (simp add: get_stats_no_row [of _ db] boot_def)
    next
      assume "visit_stats db = Some (0, 0)"
      with False show ?thesis
        by (simp add: get_stats_stored [of _ db] boot_def)
    qed
  qed
  with 3 show ?case by simp
qed

lemma allowedOrigins_nonempty: "[] \<notin> set (allowedOrigins a)"
  by (simp add: allowedOrigins_def split: option.splits)

lemma cors_allow_origin:
  "fst (cors a req) ''Access-Control-Allow-Origin'' =
     (if origin_allowed a req then origin req else None)"
proof (cases "origin req")
  case None
  then show ?thesis
    by (simp add: cors_def origin_allowed_def Let_def)
next
  case (Some v)
  have "v \<in> set (allowedOrigins a) \<Longrightarrow> v \<noteq> []"
    using allowedOrigins_nonempty [of a] by auto
  with Some show ?thesis
    by (auto simp: cors_def origin_allowed_def Let_def)
qed

lemma same_json_cookie_stored_once:
  "map_option visit_stats
     (pool (run [Visit up json_cookie, Visit up json_cookie] (boot fresh_store))) =
   Some (Some (2, 1))"
proof -
  have p: "pool (boot fresh_store) = Some (ensureTables empty_database)"
    and row: "visit_stats (ensureTables empty_database) = Some (0, 0)"
    and q: "\<not> query_rejects up"
    by (simp_all add: boot_def fresh_store_def ensureTables_def empty_database_def up_def)
  note first = post_visit_stored [OF p q row, of json_cookie, unfolded Let_def]
  define db1 where "db1 = (ensureTables empty_database)
     \<lparr>visitors := insert (pg_param (visitor_id up json_cookie)) (visitors (ensureTables empty_database)),
      visit_stats := Some (0 + 1, 0 + (if pg_param (visitor_id up json_cookie)
                                          \<in> visitors (ensureTables empty_database) then 0 else 1))\<rparr>"
  have p1: "pool (snd (post_visit up json_cookie (boot fresh_store))) = Some db1"
    by (simp add: first db1_def)
  have row1: "visit_stats db1 = Some (1, 1)"
    by (simp add: db1_def ensureTables_def empty_database_def)
  have "pg_param (visitor_id up json_cookie) \<in> visitors db1"
    by (simp add: db1_def)
  then show ?thesis
    by (simp add: post_visit_stored [OF p1 q row1] Let_def)
qed

lemma two_visits_same_value:
  assumes "visitor_id e1 r1 = visitor_id e2 r2" and "truthy (vid r2)"
    and "\<forall>j. visitor_id e2 r2 \<noteq> Object j"
  shows "totalVisits (snd (post_visit_mem e2 r2 (snd (post_visit_mem e1 r1 m)))) = totalVisits m + 2 \<and>
         uniqueVisitors m \<le> uniqueVisitors (snd (post_visit_mem e2 r2 (snd (post_visit_mem e1 r1 m)))) \<and>
         uniqueVisitors (snd (post_visit_mem e2 r2 (snd (post_visit_mem e1 r1 m)))) \<le> uniqueVisitors m + 1"
proof -
  have "seen_has (seenVisitorIds (snd (post_visit_mem e1 r1 m))) (visitor_id e2 r2)"
    using assms(1,3)
    by (cases "visitor_id e2 r2")
       (auto simp: post_visit_mem_state [of e1] seen_has_def seen_add_def)
  with assms(2) have "snd (post_visit_mem e2 r2 (snd (post_visit_mem e1 r1 m))) =
      (snd (post_visit_mem e1 r1 m))\<lparr>totalVisits := totalVisits (snd (post_visit_mem e1 r1 m)) + 1\<rparr>"
    by (simp add: post_visit_mem_state [of e2])
  then show ?thesis
    by (simp add: post_visit_mem_state [of e1])
qed

lemma seen_step_values:
  assumes "\<forall>j. Object j \<notin> visitor_ids [c]"
  shows "seenVisitorIds (snd (step_mem c s)) =
           seenVisitorIds s \<union>
           (\<lambda>v. case v of Text t \<Rightarrow> KText t | Primitive p \<Rightarrow> KPrimitive p | Object j \<Rightarrow> KObject 0) `
             visitor_ids [c]"
proof (cases c)
  case (Visit e req)
  with assms show ?thesis
    by (cases "visitor_id e req")
       (auto simp: post_visit_mem_state seen_add_def seen_has_def)
next
  case (ReadStats e)
  then show ?thesis by (simp add: get_stats_mem_def)
qed

lemma seen_run_values:
  "\<forall>j. Object j \<notin> visitor_ids cs \<Longrightarrow>
   seenVisitorIds (run_mem cs s) =
     seenVisitorIds s \<union>
     (\<lambda>v. case v of Text t \<Rightarrow> KText t | Primitive p \<Rightarrow> KPrimitive p | Object j \<Rightarrow> KObject 0) `
       visitor_ids cs"
proof (induction cs arbitrary: s)
  case Nil
  show ?case by simp
next
  case (Cons c cs)
  from Cons.prems have c: "\<forall>j. Object j \<notin> visitor_ids [c]" and cs: "\<forall>j. Object j \<notin> visitor_ids cs"
    by (simp_all add: visitor_ids_Cons [of c cs])
  show ?case
    by (simp add: Cons.IH [OF cs] seen_step_values [OF c] visitor_ids_Cons [of c cs]
        image_Un Un_assoc)
qed

lemma visit_counts_values:
  assumes "uuids_fresh {} cs" and "\<forall>j. Object j \<notin> visitor_ids cs"
  shows "totalVisits (run_mem cs initial_mem) = visits cs \<and>
         uniqueVisitors (run_mem cs initial_mem) = card (visitor_ids cs) \<and>
         totalVisits (run cs (boot None)) = visits cs \<and>
         uniqueVisitors (run cs (boot None)) = card (visitor_ids cs)"
proof -
  have inj: "inj_on (\<lambda>v. case v of Text t \<Rightarrow> KText t | Primitive p \<Rightarrow> KPrimitive p
                        | Object j \<Rightarrow> KObject 0) (visitor_ids cs)"
    using assms(2) by (auto simp: inj_on_def split: cookie_value.splits)
  have count: "uniqueVisitors (run_mem cs s) = card (visitor_ids cs)"
    if "uniqueVisitors s = 0" "seenVisitorIds s = {}" for s :: "'a stats_mem_scheme"
    using run_mem_card [of s cs] that assms(1)
    by (simp add: seen_run_values [OF assms(2)] card_image [OF inj])
  have "run cs (boot None) = run_mem cs (boot None)"
    by (rule run_no_pool) (simp add: boot_def)
  with count [of initial_mem] count [of "boot None"] show ?thesis
    by (simp add: total_run_mem initial_mem_def boot_def)
qed

lemma post_visit_cut:
  assumes "pool s = Some db"
  shows "post_visit e req s =
           (let (p, db') = post_visit_await e req s db in resume p (s\<lparr>pool := Some db'\<rparr>))"
proof (cases "query_record_visit e (pg_param (visitor_id e req)) db")
  case (Inl err)
  from assms have same: "s\<lparr>pool := Some db\<rparr> = s" by simp
  from Inl assms show ?thesis
    by (simp add: post_visit_def post_visit_await_def post_visit_resume_def resolve_visitor_id
        same)
next
  case (Inr r)
  obtain rows db' where "r = (rows, db')" by (cases r)
  with Inr assms show ?thesis
    by (cases rows)
       (simp_all add: post_visit_def post_visit_await_def post_visit_resume_def
          resolve_visitor_id Let_def visit_response_def)
qed

lemma get_stats_cut:
  assumes "pool s = Some db"
  shows "get_stats e s =
           (let (p, db') = get_stats_await e db in resume p (s\<lparr>pool := Some db'\<rparr>))"
proof -
  from assms have same: "s\<lparr>pool := Some db\<rparr> = s" by simp
  from assms show ?thesis
    by (simp add: get_stats_def get_stats_await_def get_stats_resume_def same
        split: sum.splits)
qed

lemma step_cut:
  assumes "pool s = Some db"
  shows "step c s = (let (p, db') = await c s db in resume p (s\<lparr>pool := Some db'\<rparr>))"
  using assms by (cases c) (simp_all add: post_visit_cut get_stats_cut)

lemma events_in_turn: "events (in_turn cs) (s, []) = (run cs s, [])"
proof (induction cs arbitrary: s)
  case Nil
  show ?case by simp
next
  case (Cons c cs)
  show ?case
  proof (cases "pool s")
    case None
    then have "pool (snd (step c s)) = None"
      by (simp add: step_no_pool pool_step_mem)
    with None show ?thesis
      by (simp add: Cons.IH)
  next
    case (Some db)
    then show ?thesis
      by (simp add: Cons.IH step_cut [OF Some] split_beta Let_def)
  qed
qed

lemma le2_refl [simp]: "le2 a a"
  by (simp add: le2_def)

lemma le2_trans: "le2 a b \<Longrightarrow> le2 b c \<Longrightarrow> le2 a c"
  by (auto simp: le2_def)

lemma map_filter_snoc:
  "List.map_filter f (xs @ [x]) =
     List.map_filter f xs @ (case f x of None \<Rightarrow> [] | Some y \<Rightarrow> [y])"
  by (induction xs) (simp_all split: option.splits)

lemma await_facts:
  "le2 (stored_counters db) (stored_counters (snd (await c s db))) \<and>
   (pending_write (fst (await c s db)) = None \<or>
    pending_write (fst (await c s db)) = Some (stored_counters (snd (await c s db)))) \<and>
   stored_le (Some db) (Some (snd (await c s db)))"
proof (cases c)
  case (Visit e req)
  show ?thesis
  proof (cases "visit_stats db")
    case None
    with Visit show ?thesis
      by (simp add: post_visit_await_def query_record_visit_def resolve_visitor_id
          stored_counters_def stored_le_def)
  next
    case (Some r)
    obtain t u where "r = (t, u)" by (cases r)
    with Some Visit show ?thesis
      by (simp add: post_visit_await_def query_record_visit_def resolve_visitor_id
          stored_counters_def stored_le_def le2_def Number_pg_int8 Let_def)
  qed
next
  case (ReadStats e)
  show ?thesis
  proof (cases "visit_stats db")
    case None
    with ReadStats show ?thesis
      by (simp add: get_stats_await_def query_read_stats_def stored_counters_def stored_le_def)
  next
    case (Some r)
    obtain t u where "r = (t, u)" by (cases r)
    with Some ReadStats show ?thesis
      by (simp add: get_stats_await_def query_read_stats_def stored_counters_def stored_le_def
          Number_pg_int8)
  qed
qed

lemma resume_counters:
  "(totalVisits (snd (resume p s)), uniqueVisitors (snd (resume p s))) =
     (case pending_write p of None \<Rightarrow> (totalVisits s, uniqueVisitors s) | Some w \<Rightarrow> w)"
  and pool_resume: "pool (snd (resume p s)) = pool s"
proof -
  have "(totalVisits (snd (resume p s)), uniqueVisitors (snd (resume p s))) =
          (case pending_write p of None \<Rightarrow> (totalVisits s, uniqueVisitors s) | Some w \<Rightarrow> w) \<and>
        pool (snd (resume p s)) = pool s"
  proof (cases p)
    case (VisitQuery v n answer)
    show ?thesis
    proof (cases answer)
      case (Inl err)
      with VisitQuery show ?thesis by (simp add: post_visit_resume_def)
    next
      case (Inr rows)
      with VisitQuery show ?thesis
        by (cases rows) (simp_all add: post_visit_resume_def Let_def)
    qed
  next
    case (StatsQuery answer)
    show ?thesis
    proof (cases answer)
      case (Inl err)
      with StatsQuery show ?thesis by (simp add: get_stats_resume_def)
    next
      case (Inr rows)
      with StatsQuery show ?thesis
        by (cases rows) (simp_all add: get_stats_resume_def Let_def)
    qed
  qed
  then show "(totalVisits (snd (resume p s)), uniqueVisitors (snd (resume p s))) =
     (case pending_write p of None \<Rightarrow> (totalVisits s, uniqueVisitors s) | Some w \<Rightarrow> w)"
    and "pool (snd (resume p s)) = pool s"
    by blast+
qed

lemma stored_le_refl [simp]: "stored_le p p"
  by (simp add: stored_le_def split: option.splits)

lemma stored_le_event_step:
  "stored_le (pool (fst sw)) (pool (fst (event_step ev sw)))"
proof (cases sw)
  case (Pair s waiting)
  show ?thesis
  proof (cases ev)
    case (Request c)
    show ?thesis
    proof (cases "pool s")
      case None
      with Pair Request show ?thesis by (simp add: stored_le_def)
    next
      case (Some db)
      with Pair Request await_facts [of db c s] show ?thesis
        by (simp add: split_beta)
    qed
  next
    case (Answer k)
    with Pair show ?thesis by (simp add: pool_resume)
  qed
qed

lemma pool_event_step:
  "(pool (fst (event_step ev sw)) = None) = (pool (fst sw) = None)"
proof (cases sw)
  case (Pair s waiting)
  show ?thesis
  proof (cases ev)
    case (Request c)
    with Pair show ?thesis
      by (cases "pool s") (simp_all add: split_beta step_no_pool pool_step_mem)
  next
    case (Answer k)
    with Pair show ?thesis by (simp add: pool_resume)
  qed
qed

lemma pool_events: "(pool (fst (events evs sw)) = None) = (pool (fst sw) = None)"
  by (induction evs arbitrary: sw) (simp_all add: pool_event_step)

lemma in_flight_step:
  assumes inv: "in_flight_ok sw" and ord: "pool (fst sw) = None \<or> in_order [ev]"
  shows "in_flight_ok (event_step ev sw) \<and>
         totalVisits (fst sw) \<le> totalVisits (fst (event_step ev sw)) \<and>
         uniqueVisitors (fst sw) \<le> uniqueVisitors (fst (event_step ev sw))"
proof (cases sw)
  case (Pair s waiting)
  show ?thesis
  proof (cases "pool s")
    case None
    with inv Pair have w: "waiting = []"
      by (simp add: in_flight_ok_def)
    show ?thesis
    proof (cases ev)
      case (Request c)
      with None Pair w monotone_step_mem [of s c] show ?thesis
        by (simp add: in_flight_ok_def step_no_pool pool_step_mem)
    next
      case (Answer k)
      with None Pair w show ?thesis
        by (simp add: in_flight_ok_def)
    qed
  next
    case (Some db)
    with inv Pair have chain: "sorted_wrt le2
        ((totalVisits s, uniqueVisitors s) # List.map_filter pending_write waiting @ [stored_counters db])"
      by (simp add: in_flight_ok_def)
    show ?thesis
    proof (cases ev)
      case (Request c)
      define p where "p = fst (await c s db)"
      define db' where "db' = snd (await c s db)"
      from await_facts [of db c s] have up: "le2 (stored_counters db) (stored_counters db')"
        and wr: "pending_write p = None \<or> pending_write p = Some (stored_counters db')"
        by (simp_all add: p_def db'_def)
      have step: "event_step ev (s, waiting) = (s\<lparr>pool := Some db'\<rparr>, waiting @ [p])"
        using Some Request by (simp add: split_beta p_def db'_def)
      from chain up have chain': "sorted_wrt le2
        ((totalVisits s, uniqueVisitors s) # List.map_filter pending_write waiting @ [stored_counters db'])"
        by (auto simp: sorted_wrt_append intro: le2_trans)
      from wr show ?thesis
      proof
        assume "pending_write p = None"
        with chain' show ?thesis
          by (simp add: Pair step in_flight_ok_def map_filter_snoc)
      next
        assume "pending_write p = Some (stored_counters db')"
        with chain' show ?thesis
          by (auto simp: Pair step in_flight_ok_def map_filter_snoc sorted_wrt_append)
      qed
    next
      case (Answer k)
      with ord Pair Some have k: "k = 0" by simp
      show ?thesis
      proof (cases waiting)
        case Nil
        with Pair Some Answer inv show ?thesis by simp
      next
        case (Cons p rest)
        have step: "event_step ev (s, p # rest) = (snd (resume p s), rest)"
          using Answer k by simp
        show ?thesis
        proof (cases "pending_write p")
          case None
          with chain Cons Some resume_counters [of p s] show ?thesis
            by (simp add: Pair step in_flight_ok_def pool_resume)
        next
          case (Some w)
          with chain Cons \<open>pool s = Some db\<close> resume_counters [of p s] show ?thesis
            by (cases w) (auto simp: Pair step in_flight_ok_def pool_resume le2_def)
        qed
      qed
    qed
  qed
qed

lemma in_order_append: "in_order (evs @ evs') = (in_order evs \<and> in_order evs')"
  by (induction evs rule: in_order.induct) simp_all

lemma in_flight_events:
  "in_flight_ok sw \<Longrightarrow> pool (fst sw) = None \<or> in_order evs \<Longrightarrow> in_flight_ok (events evs sw)"
proof (induction evs arbitrary: sw)
  case Nil
  then show ?case by simp
next
  case (Cons ev evs)
  from Cons.prems(2) have one: "pool (fst sw) = None \<or> in_order [ev]"
    and rest: "pool (fst (event_step ev sw)) = None \<or> in_order evs"
    using in_order_append [of "[ev]" evs] by (auto simp: pool_event_step)
  from in_flight_step [OF Cons.prems(1) one] have "in_flight_ok (event_step ev sw)"
    by blast
  from Cons.IH [OF this rest] show ?case by simp
qed

lemma counters_never_decrease_in_turn:
  "(let s = run cs (boot p); s' = snd (step c s)
    in totalVisits s \<le> totalVisits s' \<and> uniqueVisitors s \<le> uniqueVisitors s' \<and>
       stored_le (pool s) (pool s'))"
proof -
  have "cache_le_store (boot p)"
    by (simp add: cache_le_store_def boot_def split: option.splits)
  then have "cache_le_store (run cs (boot p))"
    by (rule cache_le_store_run)
  then show ?thesis
    unfolding Let_def by (rule monotone_step)
qed

subsection \<open>Counting visits and visitors in memory\<close>

text \<open>
  C1. Two visits that send the same cookie \<open>vid=j:{}\<close>, from the initial state of the
  in-memory server of \<open>part_000\<close> or of \<open>index.js\<close> without a pool: they are \<open>N = 2\<close>
  visits carrying \<open>K = 1\<close> visitor id, and \<open>totalVisits\<close> ends as 2, but \<open>uniqueVisitors\<close>
  ends as 2 as well. \<open>cookieParser()\<close> makes a new object of the cookie on each request,
  which \<open>seenVisitorIds.has\<close> never finds. For visits whose visitor ids are strings,
  numbers or \<open>true\<close> the counters end as \<open>N\<close> and \<open>K\<close> (\<open>visit_counts_values\<close>), and with
  a store the same cookie is counted once (\<open>same_json_cookie_stored_once\<close>).
\<close>

theorem same_json_cookie_counted_twice:
  "visits [Visit up json_cookie, Visit up json_cookie] = 2 \<and>
   card (visitor_ids [Visit up json_cookie, Visit up json_cookie]) = 1 \<and>
   totalVisits (run_mem [Visit up json_cookie, Visit up json_cookie] initial_mem) = 2 \<and>
   uniqueVisitors (run_mem [Visit up json_cookie, Visit up json_cookie] initial_mem) = 2 \<and>
   totalVisits (run [Visit up json_cookie, Visit up json_cookie] (boot None)) = 2 \<and>
   uniqueVisitors (run [Visit up json_cookie, Visit up json_cookie] (boot None)) = 2"
  by (simp add: json_cookie_def visitor_id_def post_visit_mem_state post_visit_no_pool
      seen_has_def initial_mem_def boot_def)

text \<open>
  C7. Two visits with the same visitor id, the cookie \<open>vid=j:{}\<close>, from the initial state
  of the in-memory server of \<open>part_000\<close> or of \<open>index.js\<close> without a pool, add 2 to
  \<open>totalVisits\<close> and 2 to \<open>uniqueVisitors\<close>, for the reason given for C1. When the visitor
  id is a string, a number or \<open>true\<close> and the second visit brings it in its cookie, they
  add 2 and at most 1, from every state with counters below \<open>2^53\<close>
  (\<open>two_visits_same_value\<close>).
\<close>

theorem same_json_cookie_new_twice:
  "visitor_id up json_cookie = visitor_id down json_cookie \<and>
   (let m2 = snd (post_visit_mem down json_cookie (snd (post_visit_mem up json_cookie initial_mem)))
    in totalVisits m2 = totalVisits initial_mem + 2 \<and>
       uniqueVisitors m2 = uniqueVisitors initial_mem + 2) \<and>
   (let s2 = snd (post_visit down json_cookie (snd (post_visit up json_cookie (boot None))))
    in totalVisits s2 = totalVisits (boot None) + 2 \<and>
       uniqueVisitors s2 = uniqueVisitors (boot None) + 2)"
  by (simp add: json_cookie_def visitor_id_def post_visit_mem_state post_visit_no_pool
      seen_has_def initial_mem_def boot_def)

text \<open>
  C10. In the in-memory server (of \<open>part_000\<close>, and of \<open>index.js\<close> without a pool), after
  every call of a sequence started in the initial state, \<open>uniqueVisitors\<close> is the number of
  elements of \<open>seenVisitorIds\<close>; the call removes nothing from the set, and it enlarges the
  set exactly when it adds one to \<open>uniqueVisitors\<close>. Generated identifiers are taken not to
  repeat a string carried as visitor id earlier.
\<close>

theorem unique_is_card_seen:
  assumes "uuids_fresh {} (cs @ [c])"
  shows "(let s = run_mem cs initial_mem; s' = snd (step_mem c s)
          in uniqueVisitors s' = card (seenVisitorIds s') \<and>
             seenVisitorIds s \<subseteq> seenVisitorIds s' \<and>
             (seenVisitorIds s' \<noteq> seenVisitorIds s) = (uniqueVisitors s' = uniqueVisitors s + 1) \<and>
             (seenVisitorIds s' = seenVisitorIds s) = (uniqueVisitors s' = uniqueVisitors s)) \<and>
         (let s = run cs (boot None); s' = snd (step c s)
          in uniqueVisitors s' = card (seenVisitorIds s') \<and>
             seenVisitorIds s \<subseteq> seenVisitorIds s' \<and>
             (seenVisitorIds s' \<noteq> seenVisitorIds s) = (uniqueVisitors s' = uniqueVisitors s + 1) \<and>
             (seenVisitorIds s' = seenVisitorIds s) = (uniqueVisitors s' = uniqueVisitors s))"
proof -
  have fresh_cs: "uuids_fresh {} cs"
    and fresh_c: "uuids_fresh (\<Union> (text_of ` visitor_ids cs)) [c]"
    using assms by (simp_all add: uuids_fresh_append)
  have after: "finite (seenVisitorIds (run_mem cs s)) \<and>
               uniqueVisitors (run_mem cs s) = card (seenVisitorIds (run_mem cs s)) \<and>
               (\<forall>n. KObject n \<in> seenVisitorIds (run_mem cs s) \<longrightarrow> n < objects (run_mem cs s)) \<and>
               uuids_fresh {t. KText t \<in> seenVisitorIds (run_mem cs s)} [c]"
    if "uniqueVisitors s = 0" "seenVisitorIds s = {}" for s :: "'a stats_mem_scheme"
    using run_mem_card [of s cs] that fresh_cs fresh_c by simp
  have step: "uniqueVisitors (snd (step_mem c (run_mem cs s))) =
                card (seenVisitorIds (snd (step_mem c (run_mem cs s)))) \<and>
              seenVisitorIds (run_mem cs s) \<subseteq> seenVisitorIds (snd (step_mem c (run_mem cs s))) \<and>
              (seenVisitorIds (snd (step_mem c (run_mem cs s))) \<noteq> seenVisitorIds (run_mem cs s)) =
                (uniqueVisitors (snd (step_mem c (run_mem cs s))) = uniqueVisitors (run_mem cs s) + 1) \<and>
              (seenVisitorIds (snd (step_mem c (run_mem cs s))) = seenVisitorIds (run_mem cs s)) =
                (uniqueVisitors (snd (step_mem c (run_mem cs s))) = uniqueVisitors (run_mem cs s))"
    if "uniqueVisitors s = 0" "seenVisitorIds s = {}" for s :: "'a stats_mem_scheme"
  proof -
    from after [OF that] have a: "finite (seenVisitorIds (run_mem cs s))"
      and b: "uniqueVisitors (run_mem cs s) = card (seenVisitorIds (run_mem cs s))"
      and c: "\<forall>n. KObject n \<in> seenVisitorIds (run_mem cs s) \<longrightarrow> n < objects (run_mem cs s)"
      and d: "uuids_fresh {t. KText t \<in> seenVisitorIds (run_mem cs s)} [c]"
      by blast+
    from step_mem_card(2,4,5,6) [OF a b c d] show ?thesis
      by blast
  qed
  have run_eq: "run cs (boot None) = run_mem cs (boot None)"
    by (rule run_no_pool) (simp add: boot_def)
  have "pool (run_mem cs (boot None)) = None"
    by (simp add: pool_run_mem boot_def)
  then have step_eq: "step c (run_mem cs (boot None)) = step_mem c (run_mem cs (boot None))"
    by (rule step_no_pool)
  have m: "uniqueVisitors initial_mem = 0" "seenVisitorIds initial_mem = {}"
    and v: "uniqueVisitors (boot None) = 0" "seenVisitorIds (boot None) = {}"
    by (simp_all add: initial_mem_def boot_def)
  from step [OF m] step [OF v] show ?thesis
    unfolding Let_def run_eq step_eq by blast
qed

theorem unique_is_card_seen_witness:
  "uuids_fresh {} ([Visit up no_cookie, ReadStats up] @ [Visit up stranger]) \<and>
   (let s = run_mem [Visit up no_cookie, ReadStats up] initial_mem;
        s' = snd (step_mem (Visit up stranger) s)
    in uniqueVisitors s' = card (seenVisitorIds s') \<and>
       seenVisitorIds s \<subseteq> seenVisitorIds s' \<and>
       (seenVisitorIds s' \<noteq> seenVisitorIds s) = (uniqueVisitors s' = uniqueVisitors s + 1) \<and>
       (seenVisitorIds s' = seenVisitorIds s) = (uniqueVisitors s' = uniqueVisitors s)) \<and>
   (let s = run [Visit up no_cookie, ReadStats up] (boot None);
        s' = snd (step (Visit up stranger) s)
    in uniqueVisitors s' = card (seenVisitorIds s') \<and>
       seenVisitorIds s \<subseteq> seenVisitorIds s' \<and>
       (seenVisitorIds s' \<noteq> seenVisitorIds s) = (uniqueVisitors s' = uniqueVisitors s + 1) \<and>
       (seenVisitorIds s' = seenVisitorIds s) = (uniqueVisitors s' = uniqueVisitors s))"
proof -
  have fresh: "uuids_fresh {} ([Visit up no_cookie, ReadStats up] @ [Visit up stranger])"
    by (simp add: up_def no_cookie_def stranger_def visitor_id_def)
  from fresh unique_is_card_seen [OF fresh] show ?thesis
    by blast
qed

subsection \<open>Invariants of the counters\<close>

text \<open>
  C2. After every sequence of calls, visits and reads, \<open>uniqueVisitors\<close> is at most
  \<open>totalVisits\<close>: in \<open>part_000\<close> from its initial state, and in \<open>index.js\<close> from the start
  of the process, without a pool or with a store whose row has no more unique visitors
  than visits. With a store, the same holds of the row it holds afterwards.
\<close>

theorem unique_le_total_always:
  assumes "stored_ok p"
  shows "uniqueVisitors (run_mem cs initial_mem) \<le> totalVisits (run_mem cs initial_mem) \<and>
         uniqueVisitors (run cs (boot p)) \<le> totalVisits (run cs (boot p)) \<and>
         stored_ok (pool (run cs (boot p)))"
proof -
  have "uniqueVisitors (run_mem cs initial_mem) \<le> totalVisits (run_mem cs initial_mem)"
    by (rule unique_le_total_run_mem) (simp add: initial_mem_def)
  moreover from assms have "counters_ok (boot p)"
    by (simp add: counters_ok_def boot_def)
  then have "counters_ok (run cs (boot p))"
    by (rule counters_ok_run)
  ultimately show ?thesis
    by (simp add: counters_ok_def)
qed

theorem unique_le_total_always_witness:
  "stored_ok fresh_store \<and>
   uniqueVisitors (run_mem [Visit up no_cookie, Visit down returning, ReadStats up] initial_mem)
     \<le> totalVisits (run_mem [Visit up no_cookie, Visit down returning, ReadStats up] initial_mem) \<and>
   uniqueVisitors (run [Visit up no_cookie, Visit down returning, ReadStats up] (boot fresh_store))
     \<le> totalVisits (run [Visit up no_cookie, Visit down returning, ReadStats up] (boot fresh_store)) \<and>
   stored_ok (pool (run [Visit up no_cookie, Visit down returning, ReadStats up] (boot fresh_store)))"
proof -
  have ok: "stored_ok fresh_store"
    by (simp add: stored_ok_def fresh_store_def ensureTables_def empty_database_def)
  from ok unique_le_total_always [OF ok] show ?thesis
    by blast
qed

text \<open>
  C6, as stated, fails. With a pool the handlers write \<open>stats\<close> after the \<open>await\<close>: two
  visits reach a fresh store one after the other, the answer to the second is applied
  first and leaves \<open>totalVisits\<close> and \<open>uniqueVisitors\<close> at 2, and the answer to the first,
  applied late, sets both to 1.
\<close>

theorem late_answer_lowers_counters:
  "totalVisits (fst (events [Request (Visit up no_cookie), Request (Visit up stranger), Answer 1]
                       (boot fresh_store, []))) = 2 \<and>
   uniqueVisitors (fst (events [Request (Visit up no_cookie), Request (Visit up stranger), Answer 1]
                          (boot fresh_store, []))) = 2 \<and>
   totalVisits (fst (event_step (Answer 0)
                  (events [Request (Visit up no_cookie), Request (Visit up stranger), Answer 1]
                     (boot fresh_store, [])))) = 1 \<and>
   uniqueVisitors (fst (event_step (Answer 0)
                     (events [Request (Visit up no_cookie), Request (Visit up stranger), Answer 1]
                        (boot fresh_store, [])))) = 1"
  by (simp add: up_def no_cookie_def stranger_def boot_def fresh_store_def ensureTables_def
      empty_database_def post_visit_await_def query_record_visit_def resolve_visitor_def
      post_visit_resume_def seen_has_def pg_param_def Number_pg_int8 Let_def)

text \<open>
  C6, amended. No call makes \<open>totalVisits\<close> or \<open>uniqueVisitors\<close> smaller in the in-memory
  server (\<open>part_000\<close> from any state, \<open>index.js\<close> without a pool), and nothing that happens
  makes the stored row of \<open>visit_stats\<close> smaller, however requests and answers interleave.
  The counters that \<open>index.js\<close> keeps in \<open>stats\<close> next to a pool do not decrease as long
  as the answers of the store are applied in the order in which it ran the queries.
\<close>

theorem counters_decrease_only_out_of_order:
  "(let m' = snd (step_mem c m)
    in totalVisits m \<le> totalVisits m' \<and> uniqueVisitors m \<le> uniqueVisitors m') \<and>
   (let sw = events evs (boot p, []); sw' = event_step ev sw
    in stored_le (pool (fst sw)) (pool (fst sw')) \<and>
       (p = None \<or> in_order (evs @ [ev]) \<longrightarrow>
          totalVisits (fst sw) \<le> totalVisits (fst sw') \<and>
          uniqueVisitors (fst sw) \<le> uniqueVisitors (fst sw')))"
proof -
  have start: "in_flight_ok (boot p, [])"
    by (simp add: in_flight_ok_def boot_def le2_def split: option.splits)
  have cached: "totalVisits (fst (events evs (boot p, []))) \<le>
                  totalVisits (fst (event_step ev (events evs (boot p, [])))) \<and>
                uniqueVisitors (fst (events evs (boot p, []))) \<le>
                  uniqueVisitors (fst (event_step ev (events evs (boot p, []))))"
    if "p = None \<or> in_order (evs @ [ev])"
  proof -
    from that have before: "pool (fst (boot p, [])) = None \<or> in_order evs"
      and now: "pool (fst (events evs (boot p, []))) = None \<or> in_order [ev]"
      by (auto simp: in_order_append pool_events boot_def)
    from in_flight_events [OF start before] have "in_flight_ok (events evs (boot p, []))" .
    from in_flight_step [OF this now] show ?thesis
      by blast
  qed
  show ?thesis
    unfolding Let_def
    using monotone_step_mem [of m c] stored_le_event_step [of "events evs (boot p, [])" ev] cached
    by blast
qed

theorem counters_decrease_only_out_of_order_witness:
  "in_order ([Request (Visit up no_cookie), Request (Visit up stranger), Answer 0] @ [Answer 0]) \<and>
   (let sw = events [Request (Visit up no_cookie), Request (Visit up stranger), Answer 0]
               (boot fresh_store, []);
        sw' = event_step (Answer 0) sw
    in stored_le (pool (fst sw)) (pool (fst sw')) \<and>
       totalVisits (fst sw) \<le> totalVisits (fst sw') \<and>
       uniqueVisitors (fst sw) \<le> uniqueVisitors (fst sw'))"
proof -
  have ord: "in_order ([Request (Visit up no_cookie), Request (Visit up stranger), Answer 0] @
                       [Answer 0])"
    by simp
  from ord
    counters_decrease_only_out_of_order
      [of "Visit up no_cookie" initial_mem
          "[Request (Visit up no_cookie), Request (Visit up stranger), Answer 0]"
          fresh_store "Answer 0"]
  show ?thesis
    unfolding Let_def by blast
qed

subsection \<open>The store fails\<close>

text \<open>
  C3. When \<open>pool.query\<close> rejects during \<open>POST /api/visit\<close>, the response has status 500 and
  the body \<open>{ ok: false, error: "stats_update_failed" }\<close>, and the state of the process,
  \<open>totalVisits\<close> and \<open>uniqueVisitors\<close> included, is what it was before the call.
\<close>

theorem visit_store_error:
  assumes "pool s = Some db" and "query_rejects e"
  shows "status (fst (post_visit e req s)) = 500 \<and>
         body (fst (post_visit e req s)) = ErrorBody False ''stats_update_failed'' \<and>
         totalVisits (snd (post_visit e req s)) = totalVisits s \<and>
         uniqueVisitors (snd (post_visit e req s)) = uniqueVisitors s \<and>
         snd (post_visit e req s) = s"
  using assms by (simp add: post_visit_rejected)

theorem visit_store_error_witness:
  "pool (boot fresh_store) = Some (ensureTables empty_database) \<and> query_rejects down \<and>
   status (fst (post_visit down no_cookie (boot fresh_store))) = 500 \<and>
   body (fst (post_visit down no_cookie (boot fresh_store))) = ErrorBody False ''stats_update_failed'' \<and>
   totalVisits (snd (post_visit down no_cookie (boot fresh_store))) = totalVisits (boot fresh_store) \<and>
   uniqueVisitors (snd (post_visit down no_cookie (boot fresh_store))) = uniqueVisitors (boot fresh_store) \<and>
   snd (post_visit down no_cookie (boot fresh_store)) = boot fresh_store"
proof -
  have p: "pool (boot fresh_store) = Some (ensureTables empty_database)"
    by (simp add: boot_def fresh_store_def)
  have q: "query_rejects down"
    by (simp add: down_def)
  from p q visit_store_error [OF p q] show ?thesis
    by blast
qed

subsection \<open>First and second visit\<close>

text \<open>
  C4. The first visit, without a cookie, to a process with a freshly initialised store is
  answered with \<open>totalVisits: 1\<close>, \<open>uniqueVisitors: 1\<close> and the cookie \<open>vid\<close>, but with
  \<open>newVisitor: false\<close>: \<open>new_visitor\<close> arrives as the string \<open>"1"\<close>, which line 123
  compares to the number \<open>1\<close> with \<open>===\<close>. Without a pool \<open>newVisitor\<close> is \<open>true\<close>
  (\<open>first_visit_mem\<close>).
\<close>

theorem first_visit_stored_not_new:
  "fst (post_visit up no_cookie (boot fresh_store)) =
     \<lparr>status = 200,
      cookie = Some (''vid'', Text ''1b9d6bcd-bbfd-4b2d-9b5d-ab8dfbbd4bed'', one_year_cookie),
      body = VisitBody True 1 1 False\<rparr>"
  by (simp add: first_visit_stored up_def no_cookie_def)

text \<open>
  C5. A second visit that sends back the cookie set by the answer to a first visit is
  answered with \<open>newVisitor: false\<close>, \<open>totalVisits: 2\<close> and \<open>uniqueVisitors: 1\<close>: in
  \<open>part_000\<close>, in \<open>index.js\<close> without a pool, and in \<open>index.js\<close> with a freshly
  initialised store whose queries succeed. The cookie that the first answer sets is a
  non-empty string that does not start with \<open>j:\<close>, as a generated identifier is.
\<close>

theorem second_visit_reusing_cookie:
  assumes "plain_text (visitor_id e1 r1)" and "\<not> query_rejects e1" and "\<not> query_rejects e2"
  shows "(let (res1, m1) = post_visit_mem e1 r1 initial_mem;
              (res2, m2) = post_visit_mem e2 (reuse_cookie res1 r2) m1
          in body res2 = VisitBody True 2 1 False) \<and>
         (let (res1, s1) = post_visit e1 r1 (boot None);
              (res2, s2) = post_visit e2 (reuse_cookie res1 r2) s1
          in body res2 = VisitBody True 2 1 False) \<and>
         (let (res1, s1) = post_visit e1 r1 (boot fresh_store);
              (res2, s2) = post_visit e2 (reuse_cookie res1 r2) s1
          in body res2 = VisitBody True 2 1 False)"
proof -
  define v where "v = visitor_id e1 r1"
  from assms(1) obtain t where t: "v = Text t" "t \<noteq> []"
    by (cases v) (simp_all add: v_def [symmetric] plain_text_def)
  have again: "visitor_id e2 (r2\<lparr>vid := Some v\<rparr>) = v" "truthy (vid (r2\<lparr>vid := Some v\<rparr>))"
    using t by (simp_all add: visitor_id_def)
  have mem: "body (fst (post_visit_mem e2 (reuse_cookie (fst (post_visit_mem e1 r1 s)) r2)
                     (snd (post_visit_mem e1 r1 s)))) = VisitBody True 2 1 False"
    if "totalVisits s = 0" "uniqueVisitors s = 0" "seenVisitorIds s = {}"
    for s :: "'a stats_mem_scheme"
  proof -
    have r: "reuse_cookie (fst (post_visit_mem e1 r1 s)) r2 = r2\<lparr>vid := Some v\<rparr>"
      by (simp add: reuse_cookie_def post_visit_mem_response issued_vid_visit_response v_def)
    have first: "snd (post_visit_mem e1 r1 s) =
        seen_add v (s\<lparr>totalVisits := totalVisits s + 1, uniqueVisitors := uniqueVisitors s + 1\<rparr>)"
      using that t by (simp add: post_visit_mem_state v_def [symmetric] seen_has_def)
    show ?thesis
      unfolding r
      using that again t
      by (simp add: post_visit_mem_response [of e2] post_visit_mem_state [of e2]
          body_visit_response first seen_add_def seen_has_def)
  qed
  have one: "body (fst (post_visit_mem e2 (reuse_cookie (fst (post_visit_mem e1 r1 initial_mem)) r2)
                     (snd (post_visit_mem e1 r1 initial_mem)))) = VisitBody True 2 1 False"
    by (rule mem) (simp_all add: initial_mem_def)
  have two: "body (fst (post_visit e2 (reuse_cookie (fst (post_visit e1 r1 (boot None))) r2)
                     (snd (post_visit e1 r1 (boot None))))) = VisitBody True 2 1 False"
  proof -
    have "pool (boot None) = None" by (simp add: boot_def)
    then have a: "post_visit e1 r1 (boot None) = post_visit_mem e1 r1 (boot None)"
      by (rule post_visit_no_pool)
    have "pool (snd (post_visit_mem e1 r1 (boot None))) = None"
      using pool_step_mem [of "Visit e1 r1" "boot None"] by (simp add: boot_def)
    then have b: "post_visit e2 r (snd (post_visit_mem e1 r1 (boot None))) =
                  post_visit_mem e2 r (snd (post_visit_mem e1 r1 (boot None)))" for r
      by (rule post_visit_no_pool)
    show ?thesis
      unfolding a b by (rule mem) (simp_all add: boot_def)
  qed
  have three: "body (fst (post_visit e2 (reuse_cookie (fst (post_visit e1 r1 (boot fresh_store))) r2)
                     (snd (post_visit e1 r1 (boot fresh_store))))) = VisitBody True 2 1 False"
  proof -
    have p: "pool (boot fresh_store) = Some (ensureTables empty_database)"
      and row: "visit_stats (ensureTables empty_database) = Some (0, 0)"
      by (simp_all add: boot_def fresh_store_def ensureTables_def empty_database_def)
    note first = post_visit_stored [OF p assms(2) row, of r1, unfolded Let_def, folded v_def]
    have r: "reuse_cookie (fst (post_visit e1 r1 (boot fresh_store))) r2 = r2\<lparr>vid := Some v\<rparr>"
      by (simp add: first reuse_cookie_def issued_vid_visit_response)
    define db1 where "db1 = (ensureTables empty_database)
       \<lparr>visitors := insert (pg_param v) (visitors (ensureTables empty_database)),
        visit_stats := Some (0 + 1, 0 + (if pg_param v \<in> visitors (ensureTables empty_database) then 0 else 1))\<rparr>"
    have p1: "pool (snd (post_visit e1 r1 (boot fresh_store))) = Some db1"
      by (simp add: first db1_def)
    have row1: "visit_stats db1 = Some (1, 1)"
      by (simp add: db1_def ensureTables_def empty_database_def)
    have seen1: "pg_param v \<in> visitors db1"
      by (simp add: db1_def)
    show ?thesis
      unfolding r
      using seen1 again
      by (simp add: post_visit_stored [OF p1 assms(3) row1] Let_def body_visit_response)
  qed
  from one two three show ?thesis
    by (simp add: split_beta)
qed

theorem second_visit_reusing_cookie_witness:
  "plain_text (visitor_id up no_cookie) \<and> \<not> query_rejects up \<and>
   (let (res1, m1) = post_visit_mem up no_cookie initial_mem;
        (res2, m2) = post_visit_mem up (reuse_cookie res1 no_cookie) m1
    in body res2 = VisitBody True 2 1 False) \<and>
   (let (res1, s1) = post_visit up no_cookie (boot None);
        (res2, s2) = post_visit up (reuse_cookie res1 no_cookie) s1
    in body res2 = VisitBody True 2 1 False) \<and>
   (let (res1, s1) = post_visit up no_cookie (boot fresh_store);
        (res2, s2) = post_visit up (reuse_cookie res1 no_cookie) s1
    in body res2 = VisitBody True 2 1 False)"
proof -
  have generated: "plain_text (visitor_id up no_cookie)"
    by (simp add: plain_text_def visitor_id_def up_def no_cookie_def)
  have reachable: "\<not> query_rejects up"
    by (simp add: up_def)
  from generated reachable
    second_visit_reusing_cookie [OF generated reachable reachable, of no_cookie]
  show ?thesis
    by blast
qed

text \<open>
  C8. Before any visit, and after any number of reads, \<open>GET /api/stats\<close> answers with
  \<open>totalVisits\<close> 0 and \<open>uniqueVisitors\<close> 0: in \<open>part_000\<close>, in \<open>index.js\<close> without a pool,
  and in \<open>index.js\<close> with a store that is freshly initialised or has no row yet, when its
  query succeeds.
\<close>

theorem stats_before_any_visit:
  assumes "visits cs = 0" and "\<not> query_rejects e"
  shows "fst (get_stats_mem (run_mem cs initial_mem)) =
           \<lparr>status = 200, cookie = None, body = StatsBody 0 0\<rparr> \<and>
         fst (get_stats e (run cs (boot None))) =
           \<lparr>status = 200, cookie = None, body = StatsBody 0 0\<rparr> \<and>
         fst (get_stats e (run cs (boot fresh_store))) =
           \<lparr>status = 200, cookie = None, body = StatsBody 0 0\<rparr> \<and>
         fst (get_stats e (run cs (boot (Some empty_database)))) =
           \<lparr>status = 200, cookie = None, body = StatsBody 0 0\<rparr>"
proof -
  have "fst (get_stats_mem (run_mem cs initial_mem)) =
          \<lparr>status = 200, cookie = None, body = StatsBody 0 0\<rparr>"
    using assms(1) by (simp add: run_mem_reads get_stats_mem_def initial_mem_def)
  moreover have "run cs (boot None) = run_mem cs (boot None)"
    by (rule run_no_pool) (simp add: boot_def)
  then have "fst (get_stats e (run cs (boot None))) =
          \<lparr>status = 200, cookie = None, body = StatsBody 0 0\<rparr>"
    using assms(1) by (simp add: run_mem_reads get_stats_def boot_def)
  moreover have "run cs (boot fresh_store) = boot fresh_store"
    unfolding fresh_store_def using assms(1)
    by (rule run_reads_zero) (simp add: ensureTables_def empty_database_def)
  then have "fst (get_stats e (run cs (boot fresh_store))) =
          \<lparr>status = 200, cookie = None, body = StatsBody 0 0\<rparr>"
    using assms(2)
    by (simp add: get_stats_stored [of _ "ensureTables empty_database" _ 0 0] boot_def
        fresh_store_def ensureTables_def empty_database_def)
  moreover have "run cs (boot (Some empty_database)) = boot (Some empty_database)"
    using assms(1) by (rule run_reads_zero) (simp add: empty_database_def)
  then have "fst (get_stats e (run cs (boot (Some empty_database)))) =
          \<lparr>status = 200, cookie = None, body = StatsBody 0 0\<rparr>"
    using assms(2)
    by (simp add: get_stats_no_row [of _ empty_database] boot_def empty_database_def)
  ultimately show ?thesis by blast
qed

theorem stats_before_any_visit_witness:
  "visits [ReadStats down, ReadStats up] = 0 \<and> \<not> query_rejects up \<and>
   fst (get_stats_mem (run_mem [ReadStats down, ReadStats up] initial_mem)) =
     \<lparr>status = 200, cookie = None, body = StatsBody 0 0\<rparr> \<and>
   fst (get_stats up (run [ReadStats down, ReadStats up] (boot None))) =
     \<lparr>status = 200, cookie = None, body = StatsBody 0 0\<rparr> \<and>
   fst (get_stats up (run [ReadStats down, ReadStats up] (boot fresh_store))) =
     \<lparr>status = 200, cookie = None, body = StatsBody 0 0\<rparr> \<and>
   fst (get_stats up (run [ReadStats down, ReadStats up] (boot (Some empty_database)))) =
     \<lparr>status = 200, cookie = None, body = StatsBody 0 0\<rparr>"
proof -
  have reads: "visits [ReadStats down, ReadStats up] = 0"
    by simp
  have reachable: "\<not> query_rejects up"
    by (simp add: up_def)
  from reads reachable stats_before_any_visit [OF reads reachable] show ?thesis
    by blast
qed

subsection \<open>Preflight requests\<close>

text \<open>
  C9, as stated, fails: an \<open>OPTIONS\<close> request without an Origin header is answered with
  status 204 and both headers, although its origin is not in the configured list.
\<close>

theorem preflight_without_origin_answered:
  "preflight_answered (cors (Some ''https://kjw.example'') preflight) \<and>
   \<not> origin_allowed (Some ''https://kjw.example'') preflight"
  by (simp add: preflight_answered_def origin_allowed_def cors_def preflight_def)

text \<open>
  C9, amended. Every \<open>OPTIONS\<close> request is answered with status 204 and the headers
  \<open>Access-Control-Allow-Methods: GET,POST,OPTIONS\<close> and
  \<open>Access-Control-Allow-Headers: Content-Type\<close>, whatever its Origin header. What depends
  on the origin is the header \<open>Access-Control-Allow-Origin\<close>: it is set, to the origin of
  the request, when and only when that origin is present and in the configured list.
\<close>

theorem preflight_always_answered:
  assumes "req_method req = ''OPTIONS''"
  shows "preflight_answered (cors a req) \<and>
         fst (cors a req) ''Access-Control-Allow-Origin'' =
           (if origin_allowed a req then origin req else None)"
proof -
  from assms have "preflight_answered (cors a req)"
    by (simp add: preflight_answered_def cors_def Let_def)
  then show ?thesis
    by (simp only: cors_allow_origin)
qed

theorem preflight_always_answered_witness:
  "req_method (preflight\<lparr>origin := Some ''https://kjw.example''\<rparr>) = ''OPTIONS'' \<and>
   preflight_answered
     (cors (Some ''https://blog.example, https://kjw.example'')
        (preflight\<lparr>origin := Some ''https://kjw.example''\<rparr>)) \<and>
   fst (cors (Some ''https://blog.example, https://kjw.example'')
          (preflight\<lparr>origin := Some ''https://kjw.example''\<rparr>)) ''Access-Control-Allow-Origin'' =
     Some ''https://kjw.example''"
proof -
  have m: "req_method (preflight\<lparr>origin := Some ''https://kjw.example''\<rparr>) = ''OPTIONS''"
    by (simp add: preflight_def)
  have listed: "origin_allowed (Some ''https://blog.example, https://kjw.example'')
                  (preflight\<lparr>origin := Some ''https://kjw.example''\<rparr>)"
    by (simp add: origin_allowed_def allowedOrigins_def trim_def js_whitespace_def)
  from m preflight_always_answered [OF m, of "Some ''https://blog.example, https://kjw.example''"]
  show ?thesis
    by (simp only: listed if_True) (simp add: preflight_def)
qed

end
